theory Spec2Isabelle
  imports Complex_Main
begin

section \<open>Geometry, sensor samples and failures\<close>

text \<open>
  The estimator of \<^verbatim>\<open>raspberry/particle_slam.cpp\<close> works on \<^verbatim>\<open>double\<close> values. The
  weights, on which it computes and which it compares, are values of the type \<open>double\<close>
  of the section on double arithmetic: finite numbers, the two infinities and NaN, with
  every result rounded. The coordinates and angles of poses are only handed from one
  external function to the next; they stand as \<^typ>\<open>real\<close> numbers. The classes
  \<^verbatim>\<open>rbt::point\<close>, \<^verbatim>\<open>rbt::size\<close> and \<^verbatim>\<open>rbt::pose\<close> are pairs and a record.
\<close>

type_synonym point = "real \<times> real"

record pose =
  m_pt :: point
  m_fYaw :: real

definition pose_zero :: pose where
  "pose_zero = \<lparr>m_pt = (0, 0), m_fYaw = 0\<rparr>"

text \<open>
  One sample of the sensor stream, with the fields \<^verbatim>\<open>main.cpp\<close> writes to its log. The
  estimator only compares the bearings (as \<^verbatim>\<open>int\<close>, see \<^verbatim>\<open>CompareAngle\<close>), so the
  fields are unbounded integers here.
\<close>

record SSensorData =
  m_nYaw :: int
  m_nAngle :: int
  m_nDistance :: int
  m_anEncoderTicks :: "int list"

text \<open>
  What the C++ leaves undefined or answers with a failed assertion is a value of
  this type: \<^verbatim>\<open>front()\<close> or \<^verbatim>\<open>back()\<close> of an empty vector, an index past the end of the
  particle vector, a failed \<^verbatim>\<open>ASSERT\<close>, and a vector constructed with a negative size.
\<close>

datatype error = EmptyVector | IndexOutOfRange | AssertionFailed | LengthError

text \<open>
  An element of \<^verbatim>\<open>SScanLine::m_vecscan\<close>, built by
  \<^verbatim>\<open>emplace_back(pose, data.m_nAngle, data.m_nDistance)\<close>. The field names carry the
  prefix \<open>scan_\<close> because two records cannot share a field name.
\<close>

record SScan =
  scan_pose :: pose
  scan_nAngle :: int
  scan_nDistance :: int

type_synonym SScanLine = "SScan list"

section \<open>Pixel buffers\<close>

text \<open>
  A \<^verbatim>\<open>cv::Mat\<close> is a header that points to a reference-counted pixel buffer: copying the
  header (copy construction, return by value) shares the buffer, \<^verbatim>\<open>clone()\<close> allocates a
  new one. A \<^verbatim>\<open>cv::Mat\<close> is therefore the address of its buffer, and the store is the
  list of all buffers, a buffer's address being its position. The content of a buffer is a
  value of the type parameter \<open>'img\<close>.
\<close>

type_synonym Mat = nat

type_synonym 'img heap = "'img list"

definition Mat_create :: "'img \<Rightarrow> 'img heap \<Rightarrow> Mat \<times> 'img heap" where
  "Mat_create img h = (length h, h @ [img])"

definition Mat_clone :: "Mat \<Rightarrow> 'img heap \<Rightarrow> Mat \<times> 'img heap" where
  "Mat_clone m h = Mat_create (h ! m) h"

section \<open>Double arithmetic\<close>

text \<open>
  A \<^verbatim>\<open>double\<close> is a finite number, an infinity or NaN. An operation on finite values
  yields the exact result rounded to the nearest \<^verbatim>\<open>double\<close>, ties to the even significand
  (IEEE 754, the default rounding mode). A \<^verbatim>\<open>double\<close> has a significand of 53 bits, so the
  spacing of the values around \<open>x\<close> is 2 to the power \<open>binade x - 52\<close>, and never less than
  2 to the power -1074; \<open>binade x\<close> is the exponent \<open>k\<close> with \<open>2 ^ k \<le> \<bar>x\<bar> < 2 ^ (k + 1)\<close>,
  found by halving or doubling. A rounded result beyond the largest finite \<^verbatim>\<open>double\<close> is
  an infinity.
\<close>

datatype double = Finite real | PlusInfinity | MinusInfinity | NaN

definition round_even :: "real \<Rightarrow> int" where
  "round_even x =
     (let f = \<lfloor>x\<rfloor>
      in if x - of_int f < 1 / 2 then f
         else if 1 / 2 < x - of_int f then f + 1
         else if even f then f else f + 1)"

function halvings :: "real \<Rightarrow> nat" where
  "halvings x = (if 2 \<le> x then Suc (halvings (x / 2)) else 0)"
  by pat_completeness auto
termination
proof (relation "measure (\<lambda>x. nat \<lfloor>x\<rfloor>)")
  show "wf (measure (\<lambda>x::real. nat \<lfloor>x\<rfloor>))" by simp
next
  fix x :: real
  assume "2 \<le> x"
  then have "x / 2 \<le> x - 1" by simp
  then have "\<lfloor>x / 2\<rfloor> \<le> \<lfloor>x - 1\<rfloor>" by (rule floor_mono)
  moreover from \<open>2 \<le> x\<close> have "2 \<le> \<lfloor>x\<rfloor>" by (simp add: le_floor_iff)
  ultimately show "(x / 2, x) \<in> measure (\<lambda>x. nat \<lfloor>x\<rfloor>)" by simp
qed

function doublings :: "real \<Rightarrow> nat" where
  "doublings x = (if 0 < x \<and> x < 1 then Suc (doublings (2 * x)) else 0)"
  by pat_completeness auto
termination
proof (relation "measure (\<lambda>x. nat \<lceil>1 / x\<rceil>)")
  show "wf (measure (\<lambda>x::real. nat \<lceil>1 / x\<rceil>))" by simp
next
  fix x :: real
  assume "0 < x \<and> x < 1"
  then have y: "1 < 1 / x" by simp
  then have c: "2 \<le> \<lceil>1 / x\<rceil>" by (simp add: le_ceiling_iff)
  have "1 / x \<le> of_int \<lceil>1 / x\<rceil>" by (rule le_of_int_ceiling)
  then have "1 / (2 * x) \<le> of_int \<lceil>1 / x\<rceil> / 2" by simp
  also have "\<dots> \<le> of_int (\<lceil>1 / x\<rceil> - 1)" using c by simp
  finally have "\<lceil>1 / (2 * x)\<rceil> \<le> \<lceil>1 / x\<rceil> - 1" by (rule ceiling_le)
  with c have "nat \<lceil>1 / (2 * x)\<rceil> < nat \<lceil>1 / x\<rceil>" by linarith
  then show "(2 * x, x) \<in> measure (\<lambda>x. nat \<lceil>1 / x\<rceil>)" by simp
qed

declare halvings.simps [simp del] doublings.simps [simp del]

definition binade :: "real \<Rightarrow> int" where
  "binade x = (if 1 \<le> \<bar>x\<bar> then int (halvings \<bar>x\<bar>) else - int (doublings \<bar>x\<bar>))"

definition round_double :: "real \<Rightarrow> real" where
  "round_double x =
     (if x = 0 then 0
      else (let q = 2 powi (max (binade x - 52) (- 1074))
            in of_int (round_even (x / q)) * q))"

definition max_double :: real where
  "max_double = (2 - 1 / 2 ^ 52) * 2 ^ 1023"

text \<open>The \<^verbatim>\<open>double\<close> that the machine returns for the exact result \<open>x\<close>.\<close>

definition double_of_real :: "real \<Rightarrow> double" where
  "double_of_real x =
     (let y = round_double x
      in if max_double < y then PlusInfinity
         else if y < - max_double then MinusInfinity
         else Finite y)"

text \<open>
  The operators \<^verbatim>\<open>+\<close>, \<^verbatim>\<open>*\<close>, \<^verbatim>\<open>/\<close> and \<^verbatim>\<open><\<close> on \<^verbatim>\<open>double\<close>. The argument \<open>fl\<close> is the
  rounding of the arithmetic: \<open>double_of_real\<close> on the machine, \<open>Finite\<close> for exact
  arithmetic. The two zeros of the machine are one value here; they differ only as
  divisors, and the one divisor of the estimator is the size of a vector, whose zero is
  the positive one. Every comparison with NaN is false.
\<close>

definition infinity_of :: "real \<Rightarrow> double" where
  "infinity_of s = (if 0 < s then PlusInfinity else if s < 0 then MinusInfinity else NaN)"

fun double_sgn :: "double \<Rightarrow> real" where
  "double_sgn (Finite x) = sgn x"
| "double_sgn PlusInfinity = 1"
| "double_sgn MinusInfinity = - 1"
| "double_sgn NaN = 0"

fun double_add :: "(real \<Rightarrow> double) \<Rightarrow> double \<Rightarrow> double \<Rightarrow> double" where
  "double_add fl (Finite x) (Finite y) = fl (x + y)"
| "double_add fl NaN b = NaN"
| "double_add fl a NaN = NaN"
| "double_add fl PlusInfinity MinusInfinity = NaN"
| "double_add fl MinusInfinity PlusInfinity = NaN"
| "double_add fl PlusInfinity b = PlusInfinity"
| "double_add fl MinusInfinity b = MinusInfinity"
| "double_add fl a PlusInfinity = PlusInfinity"
| "double_add fl a MinusInfinity = MinusInfinity"

fun double_mult :: "(real \<Rightarrow> double) \<Rightarrow> double \<Rightarrow> double \<Rightarrow> double" where
  "double_mult fl (Finite x) (Finite y) = fl (x * y)"
| "double_mult fl NaN b = NaN"
| "double_mult fl a NaN = NaN"
| "double_mult fl a b = infinity_of (double_sgn a * double_sgn b)"

fun double_divide :: "(real \<Rightarrow> double) \<Rightarrow> double \<Rightarrow> double \<Rightarrow> double" where
  "double_divide fl (Finite x) (Finite y) = (if y = 0 then infinity_of x else fl (x / y))"
| "double_divide fl NaN b = NaN"
| "double_divide fl a NaN = NaN"
| "double_divide fl (Finite x) b = Finite 0"
| "double_divide fl a (Finite y) = infinity_of (if y < 0 then - double_sgn a else double_sgn a)"
| "double_divide fl a b = NaN"

fun double_less :: "double \<Rightarrow> double \<Rightarrow> bool" where
  "double_less (Finite x) (Finite y) = (x < y)"
| "double_less NaN b = False"
| "double_less a NaN = False"
| "double_less a MinusInfinity = False"
| "double_less MinusInfinity b = True"
| "double_less PlusInfinity b = False"
| "double_less a PlusInfinity = True"

section \<open>Functions defined outside the two source files\<close>

text \<open>
  The odometry, motion and measurement models, the occupancy grid and the OpenCV
  operations are called by the estimator but defined elsewhere. The deterministic ones
  are the fields of one record of parameters. \<open>ForEachScan\<close> yields the arguments its
  callback receives, in order; \<open>occgrid_update\<close> and \<open>toGridCoordinates\<close> take the
  extent and the scale of the grid, the former maps the log-odds and greyscale buffers
  to their new content; \<open>Mat_zeros\<close> is the buffer \<^verbatim>\<open>cv::Mat(400, 400, CV_32FC1,
  cv::Scalar(0))\<close>, and \<open>line\<close> is \<^verbatim>\<open>cv::line\<close> with the colour \<^verbatim>\<open>cv::Scalar(0)\<close>.
  The field \<open>rounding\<close> is the rounding of the arithmetic the estimator runs on:
  \<open>double_of_real\<close> on the machine, \<open>Finite\<close> for exact arithmetic.
\<close>

record 'img externals =
  UpdatePose :: "pose \<Rightarrow> SSensorData \<Rightarrow> pose"
  measurement_model_map :: "pose \<Rightarrow> SScanLine \<Rightarrow> (point \<Rightarrow> real) \<Rightarrow> double"
  ForEachScan :: "SScanLine \<Rightarrow> pose \<Rightarrow> (pose \<times> real \<times> int) list"
  occgrid_update :: "int \<times> int \<Rightarrow> int \<Rightarrow> pose \<Rightarrow> real \<Rightarrow> int \<Rightarrow> 'img \<times> 'img \<Rightarrow> 'img \<times> 'img"
  toGridCoordinates :: "int \<times> int \<Rightarrow> int \<Rightarrow> point \<Rightarrow> int \<times> int"
  at_float :: "'img \<Rightarrow> int \<Rightarrow> int \<Rightarrow> real"
  threshold :: "'img \<Rightarrow> 'img"
  distanceTransform :: "'img \<Rightarrow> 'img"
  line :: "'img \<Rightarrow> int \<times> int \<Rightarrow> int \<times> int \<Rightarrow> 'img"
  Mat_zeros :: 'img
  LogOdds_initial :: 'img
  Greyscale_initial :: 'img
  rounding :: "real \<Rightarrow> double"

text \<open>
  What one call of \<^verbatim>\<open>receivedSensorData\<close> takes from outside the program: the value
  returned by \<^verbatim>\<open>std::uniform_real_distribution<double>(0.0, fStepSize)(s_rd)\<close>, the
  randomised motion model as it answers for the \<open>i\<close>-th particle, and the content of the
  member \<^verbatim>\<open>m_fWeight\<close> of the \<open>m\<close>-th particle copied during resampling: the copy
  constructor of \<^verbatim>\<open>SParticle\<close> has no initialiser for it, so it can be any \<^verbatim>\<open>double\<close>,
  NaN and the infinities included.
\<close>

record entropy =
  uniform_real :: double
  sample_motion_model :: "nat \<Rightarrow> pose \<Rightarrow> point \<Rightarrow> real \<Rightarrow> pose"
  uninitialised_fWeight :: "nat \<Rightarrow> double"

section \<open>Scan lines\<close>

text \<open>The lambda \<^verbatim>\<open>CompareAngle\<close> of \<^verbatim>\<open>SScanLine::add\<close>.\<close>

definition CompareAngle :: "int \<Rightarrow> int \<Rightarrow> int" where
  "CompareAngle lhs rhs = (if lhs < rhs then - 1 else if rhs < lhs then 1 else 0)"

text \<open>\<^verbatim>\<open>SScanLine::add\<close>: the result is the returned flag and the new buffer.\<close>

definition SScanLine_add ::
  "'img externals \<Rightarrow> SSensorData \<Rightarrow> SScanLine \<Rightarrow> bool \<times> SScanLine" where
  "SScanLine_add X data m_vecscan =
     (if m_vecscan = [] then
        (True, m_vecscan @ [\<lparr>scan_pose = UpdatePose X pose_zero data,
                             scan_nAngle = m_nAngle data,
                             scan_nDistance = m_nDistance data\<rparr>])
      else
        (let nCompare = CompareAngle (scan_nAngle (hd m_vecscan)) (scan_nAngle (last m_vecscan));
             nCompareOther = CompareAngle (scan_nAngle (last m_vecscan)) (m_nAngle data)
         in if nCompare = 0 \<or> nCompareOther = 0 \<or> nCompare = nCompareOther then
              (True, m_vecscan @ [\<lparr>scan_pose = UpdatePose X (scan_pose (last m_vecscan)) data,
                                   scan_nAngle = m_nAngle data,
                                   scan_nDistance = m_nDistance data\<rparr>])
            else (False, m_vecscan)))"

text \<open>
  \<^verbatim>\<open>SScanLine::translation\<close> and \<^verbatim>\<open>SScanLine::rotation\<close> read \<^verbatim>\<open>m_vecscan.back()\<close>, which
  is undefined on an empty buffer.
\<close>

definition SScanLine_translation :: "SScanLine \<Rightarrow> error + point" where
  "SScanLine_translation m_vecscan =
     (if m_vecscan = [] then Inl EmptyVector else Inr (m_pt (scan_pose (last m_vecscan))))"

definition SScanLine_rotation :: "SScanLine \<Rightarrow> error + real" where
  "SScanLine_rotation m_vecscan =
     (if m_vecscan = [] then Inl EmptyVector else Inr (m_fYaw (scan_pose (last m_vecscan))))"

definition SScanLine_clear :: "SScanLine \<Rightarrow> SScanLine" where
  "SScanLine_clear m_vecscan = []"

section \<open>Occupancy grids and particles\<close>

text \<open>
  Modelled from the spec: the class \<^verbatim>\<open>COccupancyGrid\<close> is not among the source files. The
  specification describes it as a log-odds field with a derived greyscale map, addressed
  through a fixed extent and scale, and deep-copied when a particle is duplicated;
  \<^verbatim>\<open>SParticle::update\<close> reads the greyscale map through the accessor \<^verbatim>\<open>GreyscaleMap()\<close>
  and notes that the grid creates and updates that map. The grid is its extent, its scale
  and the two matrices.
\<close>

record COccupancyGrid =
  m_szn :: "int \<times> int"
  m_nScale :: int
  LogOddsMap :: Mat
  GreyscaleMap :: Mat

definition COccupancyGrid_new ::
  "'img externals \<Rightarrow> int \<times> int \<Rightarrow> int \<Rightarrow> 'img heap \<Rightarrow> COccupancyGrid \<times> 'img heap" where
  "COccupancyGrid_new X szn nScale h =
     (let (lo, h1) = Mat_create (LogOdds_initial X) h;
          (gs, h2) = Mat_create (Greyscale_initial X) h1
      in (\<lparr>m_szn = szn, m_nScale = nScale, LogOddsMap = lo, GreyscaleMap = gs\<rparr>, h2))"

definition COccupancyGrid_copy :: "COccupancyGrid \<Rightarrow> 'img heap \<Rightarrow> COccupancyGrid \<times> 'img heap" where
  "COccupancyGrid_copy g h =
     (let (lo, h1) = Mat_clone (LogOddsMap g) h;
          (gs, h2) = Mat_clone (GreyscaleMap g) h1
      in (\<lparr>m_szn = m_szn g, m_nScale = m_nScale g, LogOddsMap = lo, GreyscaleMap = gs\<rparr>, h2))"

definition COccupancyGrid_update ::
  "'img externals \<Rightarrow> COccupancyGrid \<Rightarrow> pose \<Rightarrow> real \<Rightarrow> int \<Rightarrow> 'img heap \<Rightarrow> 'img heap" where
  "COccupancyGrid_update X g poseScan fAngle nDistance h =
     (let (lo, gs) = occgrid_update X (m_szn g) (m_nScale g) poseScan fAngle nDistance
                       (h ! LogOddsMap g, h ! GreyscaleMap g)
      in h[LogOddsMap g := lo, GreyscaleMap g := gs])"

record SParticle =
  m_pose :: pose
  m_matLikelihood :: Mat
  m_occgrid :: COccupancyGrid
  m_fWeight :: double

text \<open>
  The default constructor and the copy constructor of \<^verbatim>\<open>SParticle\<close>. Neither initialises
  \<^verbatim>\<open>m_fWeight\<close>; the value found there is the argument \<open>w\<close>.
\<close>

definition SParticle_new :: "'img externals \<Rightarrow> double \<Rightarrow> 'img heap \<Rightarrow> SParticle \<times> 'img heap" where
  "SParticle_new X w h =
     (let (lk, h1) = Mat_create (Mat_zeros X) h;
          (g, h2) = COccupancyGrid_new X (400, 400) 5 h1
      in (\<lparr>m_pose = pose_zero, m_matLikelihood = lk, m_occgrid = g, m_fWeight = w\<rparr>, h2))"

definition SParticle_copy :: "double \<Rightarrow> SParticle \<Rightarrow> 'img heap \<Rightarrow> SParticle \<times> 'img heap" where
  "SParticle_copy w p h =
     (let (lk, h1) = Mat_clone (m_matLikelihood p) h;
          (g, h2) = COccupancyGrid_copy (m_occgrid p) h1
      in (\<lparr>m_pose = m_pose p, m_matLikelihood = lk, m_occgrid = g, m_fWeight = w\<rparr>, h2))"

text \<open>\<^verbatim>\<open>SParticle::update\<close>, for the \<open>i\<close>-th particle of the population.\<close>

definition SParticle_update ::
  "'img externals \<Rightarrow> entropy \<Rightarrow> nat \<Rightarrow> SScanLine \<Rightarrow> SParticle \<Rightarrow> 'img heap
     \<Rightarrow> error + (SParticle \<times> 'img heap)" where
  "SParticle_update X E i scanline p h =
     (case SScanLine_translation scanline of
        Inl e \<Rightarrow> Inl e
      | Inr t \<Rightarrow>
     (case SScanLine_rotation scanline of
        Inl e \<Rightarrow> Inl e
      | Inr rot \<Rightarrow>
         (let pose' = sample_motion_model E i (m_pose p) t rot;
              g = m_occgrid p;
              fWeight = measurement_model_map X pose' scanline
                (\<lambda>pt. let (ptn_x, ptn_y) = toGridCoordinates X (m_szn g) (m_nScale g) pt
                      in at_float X (h ! m_matLikelihood p) ptn_y ptn_x);
              h1 = fold (\<lambda>(poseScan, fAngle, nDistance). COccupancyGrid_update X g poseScan fAngle nDistance)
                     (ForEachScan X scanline pose') h;
              matnThreshold = threshold X (h1 ! GreyscaleMap g);
              h2 = h1[m_matLikelihood p := distanceTransform X matnThreshold]
          in Inr (p\<lparr>m_pose := pose', m_fWeight := fWeight\<rparr>, h2))))"

section \<open>The particle filter\<close>

text \<open>
  The iterator \<^verbatim>\<open>m_itparticle\<close> is a position in \<^verbatim>\<open>m_vecparticle\<close>; the position past the
  last particle is \<^verbatim>\<open>end()\<close>.
\<close>

record CParticleSLAM =
  m_vecparticle :: "SParticle list"
  m_itparticle :: nat
  m_scanline :: SScanLine
  m_vecpose :: "pose list"

text \<open>
  The constructor: \<^verbatim>\<open>m_vecparticle(cParticles)\<close> default-constructs the particles one
  after the other; a negative \<^verbatim>\<open>int\<close> converts to a size no vector can have. The
  argument \<open>w\<close> gives the content of the uninitialised weights.
\<close>

fun default_particles ::
  "'img externals \<Rightarrow> (nat \<Rightarrow> double) \<Rightarrow> nat \<Rightarrow> nat \<Rightarrow> 'img heap \<Rightarrow> SParticle list \<times> 'img heap" where
  "default_particles X w i 0 h = ([], h)"
| "default_particles X w i (Suc n) h =
     (let (p, h1) = SParticle_new X (w i) h;
          (ps, h2) = default_particles X w (Suc i) n h1
      in (p # ps, h2))"

definition CParticleSLAM_new ::
  "'img externals \<Rightarrow> (nat \<Rightarrow> double) \<Rightarrow> int \<Rightarrow> error + (CParticleSLAM \<times> 'img heap)" where
  "CParticleSLAM_new X w cParticles =
     (if cParticles < 0 then Inl LengthError
      else (let (ps, h) = default_particles X w 0 (nat cParticles) []
            in Inr (\<lparr>m_vecparticle = ps, m_itparticle = length ps,
                      m_scanline = [], m_vecpose = []\<rparr>, h)))"

text \<open>
  The \<^verbatim>\<open>boost::for_each\<close> over the population: every particle is updated and its new
  weight is added to \<^verbatim>\<open>fWeightTotal\<close>, the sum being rounded; \<open>i\<close> is the counter of the
  lambda.
\<close>

fun update_particles ::
  "'img externals \<Rightarrow> entropy \<Rightarrow> SScanLine \<Rightarrow> nat \<Rightarrow> SParticle list \<Rightarrow> double \<Rightarrow> 'img heap
     \<Rightarrow> error + (SParticle list \<times> double \<times> 'img heap)" where
  "update_particles X E scanline i [] fWeightTotal h = Inr ([], fWeightTotal, h)"
| "update_particles X E scanline i (p # ps) fWeightTotal h =
     (case SParticle_update X E i scanline p h of
        Inl e \<Rightarrow> Inl e
      | Inr (p', h1) \<Rightarrow>
         (case update_particles X E scanline (Suc i) ps
                 (double_add (rounding X) fWeightTotal (m_fWeight p')) h1 of
            Inl e \<Rightarrow> Inl e
          | Inr (ps', fWeightTotal', h2) \<Rightarrow> Inr (p' # ps', fWeightTotal', h2)))"

text \<open>
  The inner loop of the resampling,
  \<^verbatim>\<open>while(c<u) { ++i; c += m_vecparticle[i].m_fWeight; }\<close>,
  in the arithmetic with the rounding \<open>fl\<close>. Reading past the last particle is undefined
  and ends the run with an error.
\<close>

function advance ::
  "(real \<Rightarrow> double) \<Rightarrow> SParticle list \<Rightarrow> double \<Rightarrow> nat \<Rightarrow> double
     \<Rightarrow> error + (nat \<times> double)" where
  "advance fl ps u i c =
     (if double_less c u then
        (if Suc i < length ps then
           advance fl ps u (Suc i) (double_add fl c (m_fWeight (ps ! Suc i)))
         else Inl IndexOutOfRange)
      else Inr (i, c))"
  by pat_completeness auto
termination
  by (relation "measure (\<lambda>(fl, ps, u, i, c). length ps - i)") auto

text \<open>
  The outer loop, \<^verbatim>\<open>for(int i = 0, m = 0; m<m_vecparticle.size(); ++m)\<close>. It carries
  \<open>i\<close>, \<open>c\<close> and \<^verbatim>\<open>vecparticleNew\<close>; \<open>trace\<close> collects the indices that
  \<^verbatim>\<open>LOG("Sample particle " << i)\<close> reports. The target \<^verbatim>\<open>u = r + m * fStepSize\<close> converts
  \<open>m\<close> to a \<^verbatim>\<open>double\<close>, multiplies and adds, each step rounded: the product and the sum
  are two operations, not one fused multiply-add.
\<close>

function resample_loop ::
  "(real \<Rightarrow> double) \<Rightarrow> entropy \<Rightarrow> SParticle list \<Rightarrow> double \<Rightarrow> double \<Rightarrow> nat \<Rightarrow> nat \<Rightarrow> double
     \<Rightarrow> SParticle list \<Rightarrow> nat list \<Rightarrow> 'img heap
     \<Rightarrow> error + (SParticle list \<times> nat list \<times> 'img heap)" where
  "resample_loop fl E ps r fStepSize m i c vecparticleNew trace h =
     (if m < length ps then
        (case advance fl ps (double_add fl r (double_mult fl (fl (real m)) fStepSize)) i c of
           Inl e \<Rightarrow> Inl e
         | Inr (i', c') \<Rightarrow>
            (case SParticle_copy (uninitialised_fWeight E m) (ps ! i') h of
               (p, h') \<Rightarrow>
                 resample_loop fl E ps r fStepSize (Suc m) i' c'
                   (vecparticleNew @ [p]) (trace @ [i']) h'))
      else Inr (vecparticleNew, trace, h))"
  by pat_completeness auto
termination
  by (relation "measure (\<lambda>(fl, E, ps, r, fStepSize, m, i, c, new, trace, h). length ps - m)")
    auto

text \<open>
  Lines 121 to 135: the step size (the size of the population converted to a
  \<^verbatim>\<open>double\<close>, the quotient rounded), the drawn offset, \<^verbatim>\<open>m_vecparticle.front()\<close> and the
  loop. An empty population has no front element.
\<close>

definition resample ::
  "(real \<Rightarrow> double) \<Rightarrow> entropy \<Rightarrow> double \<Rightarrow> SParticle list \<Rightarrow> 'img heap
     \<Rightarrow> error + (SParticle list \<times> nat list \<times> 'img heap)" where
  "resample fl E fWeightTotal ps h =
     (if ps = [] then Inl EmptyVector
      else (let fStepSize = double_divide fl fWeightTotal (fl (real (length ps)));
                r = uniform_real E;
                c = m_fWeight (hd ps)
            in resample_loop fl E ps r fStepSize 0 0 c [] [] h))"

text \<open>
  \<^verbatim>\<open>std::max_element\<close>, as \<^verbatim>\<open>boost::max_element\<close> applies it to the weights: it walks
  through the range and moves to an element whenever the one it holds is less; the end
  position for an empty range.
\<close>

function max_element_loop :: "double list \<Rightarrow> nat \<Rightarrow> nat \<Rightarrow> nat" where
  "max_element_loop ws largest first =
     (if first < length ws then
        max_element_loop ws (if double_less (ws ! largest) (ws ! first) then first else largest)
          (Suc first)
      else largest)"
  by pat_completeness auto
termination
  by (relation "measure (\<lambda>(ws, largest, first). length ws - first)") auto

definition max_element :: "double list \<Rightarrow> nat" where
  "max_element ws = (if ws = [] then length ws else max_element_loop ws 0 1)"

text \<open>
  \<^verbatim>\<open>CParticleSLAM::receivedSensorData\<close>, on the filter and the store. The log output is
  left out.
\<close>

definition CParticleSLAM_receivedSensorData ::
  "'img externals \<Rightarrow> entropy \<Rightarrow> SSensorData \<Rightarrow> CParticleSLAM \<times> 'img heap
     \<Rightarrow> error + (bool \<times> CParticleSLAM \<times> 'img heap)" where
  "CParticleSLAM_receivedSensorData X E data = (\<lambda>(s, h).
     (case SScanLine_add X data (m_scanline s) of
        (True, scanline) \<Rightarrow> Inr (False, s\<lparr>m_scanline := scanline\<rparr>, h)
      | (False, scanline) \<Rightarrow>
         (case update_particles X E scanline 0 (m_vecparticle s) (Finite 0) h of
            Inl e \<Rightarrow> Inl e
          | Inr (ps, fWeightTotal, h1) \<Rightarrow>
         (case resample (rounding X) E fWeightTotal ps h1 of
            Inl e \<Rightarrow> Inl e
          | Inr (vecparticleNew, trace, h2) \<Rightarrow>
             (let it = max_element (map m_fWeight vecparticleNew)
              in if it = length vecparticleNew then Inl IndexOutOfRange
                 else Inr (True,
                        \<lparr>m_vecparticle = vecparticleNew,
                          m_itparticle = it,
                          m_scanline = snd (SScanLine_add X data (SScanLine_clear scanline)),
                          m_vecpose = m_vecpose s @ [m_pose (vecparticleNew ! it)]\<rparr>,
                        h2))))))"

text \<open>
  \<^verbatim>\<open>CParticleSLAM::getMap\<close>. The method is \<^verbatim>\<open>const\<close>, so the members of the filter stay
  as they are; the local \<^verbatim>\<open>cv::Mat m\<close> is copy-constructed from the greyscale map of the
  best particle and \<^verbatim>\<open>cv::line\<close> writes through it. The result is the returned matrix
  and the store.
\<close>

definition CParticleSLAM_getMap ::
  "'img externals \<Rightarrow> CParticleSLAM \<times> 'img heap \<Rightarrow> error + (Mat \<times> 'img heap)" where
  "CParticleSLAM_getMap X = (\<lambda>(s, h).
     (if m_itparticle s = length (m_vecparticle s) then Inl AssertionFailed
      else
        (let g = m_occgrid (m_vecparticle s ! m_itparticle s);
             m = GreyscaleMap g;
             ptnPrev = toGridCoordinates X (m_szn g) (m_nScale g) (0, 0);
             (h', ptnPrev') =
               fold (\<lambda>pose (h, ptnPrev).
                       (let ptnGrid = toGridCoordinates X (m_szn g) (m_nScale g) (m_pt pose)
                        in (h[m := line X (h ! m) ptnPrev ptnGrid], ptnGrid)))
                    (m_vecpose s) (h, ptnPrev)
         in Inr (m, h'))))"

text \<open>
  A client that passes samples to the filter one after the other; it collects the
  returned flags and stops at the first failure.
\<close>

fun receive_all ::
  "'img externals \<Rightarrow> (entropy \<times> SSensorData) list \<Rightarrow> CParticleSLAM \<times> 'img heap
     \<Rightarrow> error + (bool list \<times> CParticleSLAM \<times> 'img heap)" where
  "receive_all X [] w = Inr ([], w)"
| "receive_all X ((E, data) # rest) w =
     (case CParticleSLAM_receivedSensorData X E data w of
        Inl e \<Rightarrow> Inl e
      | Inr (b, w1) \<Rightarrow>
         (case receive_all X rest w1 of
            Inl e \<Rightarrow> Inl e
          | Inr (bs, w2) \<Rightarrow> Inr (b # bs, w2)))"

declare advance.simps [simp del] resample_loop.simps [simp del] max_element_loop.simps [simp del]

section \<open>Notions used to state the properties\<close>

text \<open>
  The running sum \<open>c\<close> of the loop when its index is \<open>i\<close>: the weights up to \<open>i\<close> in the
  order of the population, added one by one with the rounding \<open>fl\<close>. In exact arithmetic
  and on finite weights it is the cumulative weight.
\<close>

fun running :: "(real \<Rightarrow> double) \<Rightarrow> SParticle list \<Rightarrow> nat \<Rightarrow> double" where
  "running fl ps 0 = m_fWeight (hd ps)"
| "running fl ps (Suc i) = double_add fl (running fl ps i) (m_fWeight (ps ! Suc i))"

definition cumulative :: "real list \<Rightarrow> nat \<Rightarrow> real" where
  "cumulative ws i = sum_list (take (Suc i) ws)"

text \<open>The target \<^verbatim>\<open>u\<close> of the slot \<open>m\<close>, as the loop computes it.\<close>

definition target :: "(real \<Rightarrow> double) \<Rightarrow> double \<Rightarrow> double \<Rightarrow> nat \<Rightarrow> double" where
  "target fl r fStepSize m = double_add fl r (double_mult fl (fl (real m)) fStepSize)"

text \<open>
  The indices \<open>sel\<close> are the ones a pointer starting at \<open>i\<close> selects for the targets of
  the slots \<open>m\<close>, \<open>m + 1\<close>, ...: for each target it moves forward past every position whose
  running sum is below the target and stops at the first that is not.
\<close>

fun selected ::
  "(real \<Rightarrow> double) \<Rightarrow> SParticle list \<Rightarrow> double \<Rightarrow> double \<Rightarrow> nat \<Rightarrow> nat \<Rightarrow> nat list \<Rightarrow> bool" where
  "selected fl ps r s m i [] = True"
| "selected fl ps r s m i (x # sel) =
     (i \<le> x \<and> x < length ps \<and> \<not> double_less (running fl ps x) (target fl r s m)
      \<and> (\<forall>j \<in> {i..<x}. double_less (running fl ps j) (target fl r s m))
      \<and> selected fl ps r s (Suc m) x sel)"

text \<open>The sample that starts a line: its pose is relative to the zero pose.\<close>

definition seed_scan :: "'img externals \<Rightarrow> SSensorData \<Rightarrow> SScan" where
  "seed_scan X data = \<lparr>scan_pose = UpdatePose X pose_zero data,
                        scan_nAngle = m_nAngle data, scan_nDistance = m_nDistance data\<rparr>"

text \<open>What a caller can observe of a resampling: the reported indices, and the poses of
  the population a call of the filter leaves behind.\<close>

definition sampled_indices ::
  "(real \<Rightarrow> double) \<Rightarrow> entropy \<Rightarrow> double \<Rightarrow> SParticle list \<Rightarrow> 'img heap \<Rightarrow> error + nat list" where
  "sampled_indices fl E fWeightTotal ps h =
     (case resample fl E fWeightTotal ps h of
        Inl e \<Rightarrow> Inl e
      | Inr (vecparticleNew, trace, h') \<Rightarrow> Inr trace)"


section \<open>Test data\<close>

text \<open>
  Stand-ins for the external functions, to run the filter on concrete inputs. An image is
  a function from pixel positions to grey values. The measurement model returns
  \<open>weight\<close> of the sampled pose; the motion model moves the \<open>i\<close>-th particle by the
  translation of the line and by \<open>i\<close> along the first axis, and \<open>left_over\<close> is what
  the uninitialised weights hold; the grid update changes
  nothing; \<open>line\<close> blackens the two end points of a segment, which is all of the segment
  when they coincide; the arithmetic is that of the machine.
\<close>

type_synonym test_image = "int \<times> int \<Rightarrow> nat"

definition test_externals :: "(pose \<Rightarrow> real) \<Rightarrow> test_image externals" where
  "test_externals weight =
     \<lparr>UpdatePose = (\<lambda>p data. \<lparr>m_pt = m_pt p, m_fYaw = m_fYaw p + real_of_int (m_nYaw data)\<rparr>),
      measurement_model_map = (\<lambda>p scanline lookup. Finite (weight p)),
      ForEachScan = (\<lambda>scanline p.
        map (\<lambda>sc. (p, real_of_int (scan_nAngle sc), scan_nDistance sc)) scanline),
      occgrid_update = (\<lambda>szn nScale p fAngle nDistance imgs. imgs),
      toGridCoordinates = (\<lambda>szn nScale pt.
        (fst szn div 2 + \<lfloor>fst pt / real_of_int nScale\<rfloor>,
         snd szn div 2 + \<lfloor>snd pt / real_of_int nScale\<rfloor>)),
      at_float = (\<lambda>img row col. real (img (col, row))),
      threshold = (\<lambda>img q. if 0 < img q then 255 else 0),
      distanceTransform = (\<lambda>img. img),
      line = (\<lambda>img a b. img(a := 0, b := 0)),
      Mat_zeros = (\<lambda>q. 0),
      LogOdds_initial = (\<lambda>q. 0),
      Greyscale_initial = (\<lambda>q. 128),
      rounding = double_of_real\<rparr>"

definition test_entropy :: "real \<Rightarrow> (nat \<Rightarrow> double) \<Rightarrow> entropy" where
  "test_entropy r left_over =
     \<lparr>uniform_real = Finite r,
      sample_motion_model = (\<lambda>i p t rot.
        \<lparr>m_pt = (fst (m_pt p) + fst t + real i, snd (m_pt p) + snd t),
          m_fYaw = m_fYaw p + rot\<rparr>),
      uninitialised_fWeight = left_over\<rparr>"

definition test_data :: "int \<Rightarrow> int \<Rightarrow> SSensorData" where
  "test_data nAngle nDistance =
     \<lparr>m_nYaw = 0, m_nAngle = nAngle, m_nDistance = nDistance, m_anEncoderTicks = []\<rparr>"

definition test_scan :: "int \<Rightarrow> int \<Rightarrow> SScan" where
  "test_scan nAngle nDistance =
     \<lparr>scan_pose = pose_zero, scan_nAngle = nAngle, scan_nDistance = nDistance\<rparr>"

text \<open>
  The \<open>k\<close>-th particle of a population whose matrices lie one after the other in the
  store, at the position \<open>x\<close> on the first axis and with the weight \<open>w\<close>; and a store
  for four such particles.
\<close>

definition test_particle :: "nat \<Rightarrow> real \<Rightarrow> real \<Rightarrow> SParticle" where
  "test_particle k x w =
     \<lparr>m_pose = \<lparr>m_pt = (x, 0), m_fYaw = 0\<rparr>,
      m_matLikelihood = 3 * k,
      m_occgrid = \<lparr>m_szn = (400, 400), m_nScale = 5,
                    LogOddsMap = 3 * k + 1, GreyscaleMap = 3 * k + 2\<rparr>,
      m_fWeight = Finite w\<rparr>"

definition test_store :: "test_image heap" where
  "test_store =
     [\<lambda>q. 0, \<lambda>q. 0, \<lambda>q. 128, \<lambda>q. 0, \<lambda>q. 0, \<lambda>q. 128,
      \<lambda>q. 0, \<lambda>q. 0, \<lambda>q. 128, \<lambda>q. 0, \<lambda>q. 0, \<lambda>q. 128]"


text \<open>The same with the first two particles only.\<close>

definition test_filter2 :: "CParticleSLAM \<times> test_image heap" where
  "test_filter2 =
     (\<lparr>m_vecparticle = [test_particle 0 0 0, test_particle 1 10 0],
       m_itparticle = 2,
       m_scanline = [test_scan 10 100, test_scan 20 110],
       m_vecpose = []\<rparr>,
      take 6 test_store)"

text \<open>
  A filter of seven particles, a measurement model that gives the weight 23 to the first
  of them and 1 to the others, and an offset just below the step size 29/7.
\<close>

definition test_store7 :: "test_image heap" where
  "test_store7 =
     [\<lambda>q. 0, \<lambda>q. 0, \<lambda>q. 128, \<lambda>q. 0, \<lambda>q. 0, \<lambda>q. 128, \<lambda>q. 0, \<lambda>q. 0, \<lambda>q. 128,
      \<lambda>q. 0, \<lambda>q. 0, \<lambda>q. 128, \<lambda>q. 0, \<lambda>q. 0, \<lambda>q. 128, \<lambda>q. 0, \<lambda>q. 0, \<lambda>q. 128,
      \<lambda>q. 0, \<lambda>q. 0, \<lambda>q. 128]"

definition test_filter7 :: "CParticleSLAM \<times> test_image heap" where
  "test_filter7 =
     (\<lparr>m_vecparticle = [test_particle 0 0 0, test_particle 1 10 0, test_particle 2 20 0,
                         test_particle 3 30 0, test_particle 4 40 0, test_particle 5 50 0,
                         test_particle 6 60 0],
       m_itparticle = 7,
       m_scanline = [test_scan 10 100, test_scan 20 110],
       m_vecpose = []\<rparr>,
      test_store7)"

definition test_weight7 :: "pose \<Rightarrow> real" where
  "test_weight7 p = (if fst (m_pt p) < 5 then 23 else 1)"

definition test_offset7 :: real where
  "test_offset7 = 1166110617801289 / 281474976710656"

lemmas test_defs = test_externals_def test_entropy_def test_data_def test_scan_def
  test_particle_def test_store_def test_filter2_def

lemmas model_defs = CParticleSLAM_new_def SParticle_new_def COccupancyGrid_new_def
  Mat_create_def Mat_clone_def SParticle_copy_def COccupancyGrid_copy_def
  COccupancyGrid_update_def SParticle_update_def SScanLine_translation_def
  SScanLine_rotation_def SScanLine_add_def SScanLine_clear_def CompareAngle_def
  resample_def max_element_def CParticleSLAM_receivedSensorData_def CParticleSLAM_getMap_def
  pose_zero_def seed_scan_def Let_def

lemma list_update_Cons_numeral:
  "(x # xs)[numeral v := y] = x # xs[numeral v - 1 := y]"
  by (simp add: numeral_eq_Suc)

lemmas loop_simps = advance.simps resample_loop.simps max_element_loop.simps
  numeral_2_eq_2 numeral_3_eq_3 list_update_Cons_numeral

lemmas double_defs = double_of_real_def max_double_def infinity_of_def round_double_def
  binade_def halvings.simps doublings.simps round_even_def

section \<open>Properties of the rounding\<close>

lemma halvings_bounds: "1 \<le> x \<Longrightarrow> 2 ^ halvings x \<le> x \<and> x < 2 ^ Suc (halvings x)"
proof (induction x rule: halvings.induct)
  case (1 x)
  show ?case
  proof (cases "2 \<le> x")
    case True
    then have "1 \<le> x / 2" by simp
    from "1.IH" [OF True this] True show ?thesis
      by (simp add: halvings.simps [of x] field_simps)
  next
    case False
    with "1.prems" show ?thesis
      by (simp add: halvings.simps [of x])
  qed
qed

lemma doublings_bounds:
  "0 < x \<Longrightarrow> x < 1 \<Longrightarrow> 1 \<le> x * 2 ^ doublings x \<and> x * 2 ^ doublings x < 2"
proof (induction x rule: doublings.induct)
  case (1 x)
  from "1.prems" have c: "0 < x \<and> x < 1" by simp
  show ?case
  proof (cases "2 * x < 1")
    case True
    with "1.prems" "1.IH" [OF c] show ?thesis
      by (simp add: doublings.simps [of x] mult.assoc)
  next
    case False
    then have "doublings (2 * x) = 0"
      by (simp add: doublings.simps [of "2 * x"])
    with False "1.prems" show ?thesis
      by (simp add: doublings.simps [of x])
  qed
qed

lemma binade_bounds:
  assumes "x \<noteq> 0"
  shows "2 powi binade x \<le> \<bar>x\<bar> \<and> \<bar>x\<bar> < 2 powi (binade x + 1)"
proof (cases "1 \<le> \<bar>x\<bar>")
  case True
  from halvings_bounds [OF True] True show ?thesis
    by (simp add: binade_def power_int_add)
next
  case False
  with assms have x: "0 < \<bar>x\<bar>" "\<bar>x\<bar> < 1" by simp_all
  let ?d = "doublings \<bar>x\<bar>"
  from doublings_bounds [OF x] have "1 \<le> \<bar>x\<bar> * 2 ^ ?d" "\<bar>x\<bar> * 2 ^ ?d < 2" by simp_all
  then have "1 / 2 ^ ?d \<le> \<bar>x\<bar>" "\<bar>x\<bar> < 2 / 2 ^ ?d"
    by (simp_all add: field_simps)
  moreover have "(2::real) powi (- int ?d) = 1 / 2 ^ ?d"
    by (simp add: power_int_minus field_simps)
  moreover have "(2::real) powi (- int ?d + 1) = 2 / 2 ^ ?d"
    using power_int_diff [of "2::real" 1 "int ?d"] by simp
  ultimately show ?thesis
    using False by (simp add: binade_def)
qed

lemma binade_eqI:
  assumes "2 powi k \<le> \<bar>x\<bar>" and "\<bar>x\<bar> < 2 powi (k + 1)"
  shows "binade x = k"
proof -
  have "x \<noteq> 0"
  proof
    assume "x = 0"
    with assms(1) have "(2::real) powi k \<le> 0" by simp
    moreover have "0 < (2::real) powi k" by simp
    ultimately show False by linarith
  qed
  from binade_bounds [OF this] have b: "2 powi binade x \<le> \<bar>x\<bar>" "\<bar>x\<bar> < 2 powi (binade x + 1)"
    by simp_all
  have less: "i < j" if "(2::real) powi i < 2 powi j" for i j :: int
  proof (rule ccontr)
    assume "\<not> i < j"
    then have "(2::real) powi j \<le> 2 powi i" by (intro power_int_increasing) simp_all
    with that show False by simp
  qed
  from assms(1) b(2) have "(2::real) powi k < 2 powi (binade x + 1)" by simp
  then have "k < binade x + 1" by (rule less)
  moreover from b(1) assms(2) have "(2::real) powi binade x < 2 powi (k + 1)" by simp
  then have "binade x < k + 1" by (rule less)
  ultimately show ?thesis by simp
qed

lemma round_even_le: "y \<le> of_int n \<Longrightarrow> round_even y \<le> n"
proof -
  assume y: "y \<le> of_int n"
  then have f: "\<lfloor>y\<rfloor> \<le> n" by (simp add: floor_le_iff)
  show ?thesis
  proof (cases "\<lfloor>y\<rfloor> = n")
    case True
    with y have "y - of_int \<lfloor>y\<rfloor> \<le> 0" by simp
    then show ?thesis using True by (simp add: round_even_def Let_def)
  next
    case False
    with f have "\<lfloor>y\<rfloor> + 1 \<le> n" by simp
    then show ?thesis by (simp add: round_even_def Let_def)
  qed
qed

lemma round_even_ge: "of_int n + 1 / 2 < y \<Longrightarrow> n + 1 \<le> round_even y"
proof -
  assume y: "of_int n + 1 / 2 < y"
  then have f: "n \<le> \<lfloor>y\<rfloor>" by (simp add: le_floor_iff)
  show ?thesis
  proof (cases "\<lfloor>y\<rfloor> = n")
    case True
    with y have "1 / 2 < y - of_int \<lfloor>y\<rfloor>" by simp
    then show ?thesis using True by (simp add: round_even_def Let_def)
  next
    case False
    with f have "n + 1 \<le> \<lfloor>y\<rfloor>" by simp
    then show ?thesis by (simp add: round_even_def Let_def)
  qed
qed

lemma round_double_le:
  assumes "x \<noteq> 0" and "binade x = k" and "- 1022 \<le> k" and "x \<le> of_int n * 2 powi (k - 52)"
  shows "round_double x \<le> of_int n * 2 powi (k - 52)"
proof -
  let ?q = "(2::real) powi (k - 52)"
  have q: "0 < ?q" by simp
  from assms(3) have m: "max (k - 52) (- 1074) = k - 52" by simp
  from assms(4) q have "x / ?q \<le> of_int n" by (simp add: field_simps)
  then have "round_even (x / ?q) \<le> n" by (rule round_even_le)
  then have "of_int (round_even (x / ?q)) * ?q \<le> of_int n * ?q"
    using q by (simp add: mult_right_mono)
  with assms(1,2) m show ?thesis by (simp add: round_double_def Let_def)
qed

lemma round_double_ge:
  assumes "x \<noteq> 0" and "binade x = k" and "- 1022 \<le> k"
      and "(of_int n + 1 / 2) * 2 powi (k - 52) < x"
  shows "of_int (n + 1) * 2 powi (k - 52) \<le> round_double x"
proof -
  let ?q = "(2::real) powi (k - 52)"
  have q: "0 < ?q" by simp
  from assms(3) have m: "max (k - 52) (- 1074) = k - 52" by simp
  from assms(4) q have "of_int n + 1 / 2 < x / ?q" by (simp add: field_simps)
  then have "n + 1 \<le> round_even (x / ?q)" by (rule round_even_ge)
  then have "of_int (n + 1) * ?q \<le> of_int (round_even (x / ?q)) * ?q"
    using q by (simp add: mult_right_mono del: of_int_add)
  with assms(1,2) m show ?thesis by (simp add: round_double_def Let_def)
qed

lemma round_double_above_1:
  assumes "1 / 2 ^ 52 < r" and "r < 1"
  shows "1 < round_double (r + 1) \<and> round_double (r + 1) \<le> 2"
proof -
  have b: "binade (r + 1) = 0"
    using assms by (intro binade_eqI) simp_all
  have nz: "r + 1 \<noteq> 0" using assms by simp
  have "(of_int (2 ^ 52) + 1 / 2) * 2 powi (0 - 52) < r + 1"
    using assms by simp
  from round_double_ge [OF nz b _ this] have "1 + 1 / 2 ^ 52 \<le> round_double (r + 1)"
    by (simp add: field_simps)
  moreover have "r + 1 \<le> of_int (2 ^ 53) * 2 powi (0 - 52)"
    using assms by simp
  from round_double_le [OF nz b _ this] have "round_double (r + 1) \<le> 2"
    by simp
  ultimately show ?thesis by simp
qed

lemma round_double_above_2:
  assumes "1 / 2 ^ 52 < r" and "r < 1"
  shows "2 < round_double (r + 2) \<and> round_double (r + 2) \<le> 3"
proof -
  have b: "binade (r + 2) = 1"
    using assms by (intro binade_eqI) simp_all
  have nz: "r + 2 \<noteq> 0" using assms by simp
  have "(of_int (2 ^ 52) + 1 / 2) * 2 powi (1 - 52) < r + 2"
    using assms by simp
  from round_double_ge [OF nz b _ this] have "2 + 1 / 2 ^ 51 \<le> round_double (r + 2)"
    by (simp add: field_simps)
  moreover have "r + 2 \<le> of_int (3 * 2 ^ 51) * 2 powi (1 - 52)"
    using assms by simp
  from round_double_le [OF nz b _ this] have "round_double (r + 2) \<le> 3"
    by simp
  ultimately show ?thesis by simp
qed

lemma round_double_above_3:
  assumes "1 / 2 ^ 52 < r" and "r < 1"
  shows "3 < round_double (r + 3) \<and> round_double (r + 3) \<le> 4"
proof -
  have b: "binade (r + 3) = 1"
    using assms by (intro binade_eqI) simp_all
  have nz: "r + 3 \<noteq> 0" using assms by simp
  have "(of_int (3 * 2 ^ 51) + 1 / 2) * 2 powi (1 - 52) < r + 3"
    using assms by simp
  from round_double_ge [OF nz b _ this] have "3 + 1 / 2 ^ 51 \<le> round_double (r + 3)"
    by (simp add: field_simps)
  moreover have "r + 3 \<le> of_int (2 ^ 53) * 2 powi (1 - 52)"
    using assms by simp
  from round_double_le [OF nz b _ this] have "round_double (r + 3) \<le> 4"
    by simp
  ultimately show ?thesis by simp
qed

lemma round_double_below_1:
  assumes "1 / 2 ^ 52 < r" and "r < 1"
  shows "round_double r \<le> 1"
proof -
  from assms have nz: "r \<noteq> 0" and pos: "0 < r" by auto
  let ?k = "binade r"
  from binade_bounds [OF nz] pos have b: "2 powi ?k \<le> r" "r < 2 powi (?k + 1)" by simp_all
  have less: "i < j" if "(2::real) powi i < 2 powi j" for i j :: int
  proof (rule ccontr)
    assume "\<not> i < j"
    then have "(2::real) powi j \<le> 2 powi i" by (intro power_int_increasing) simp_all
    with that show False by simp
  qed
  from b(1) assms(2) have "(2::real) powi ?k < 2 powi 0" by simp
  then have k0: "?k < 0" by (rule less)
  from b(2) assms(1) have "(2::real) powi (- 52) < 2 powi (?k + 1)" by simp
  then have k52: "- 52 < ?k + 1" by (rule less)
  have one: "of_int (2 ^ nat (52 - ?k)) * 2 powi (?k - 52) = (1::real)"
  proof -
    have "(2::real) ^ nat (52 - ?k) = 2 powi (52 - ?k)"
      using k0 by (simp add: power_int_def)
    then have "of_int (2 ^ nat (52 - ?k)) * 2 powi (?k - 52) = (2::real) powi (52 - ?k) * 2 powi (?k - 52)"
      by simp
    also have "\<dots> = 2 powi ((52 - ?k) + (?k - 52))"
      by (rule power_int_add [symmetric]) simp
    also have "\<dots> = 1" by simp
    finally show ?thesis .
  qed
  have "r \<le> of_int (2 ^ nat (52 - ?k)) * 2 powi (?k - 52)"
    using assms(2) one by simp
  from round_double_le [OF nz refl _ this] k52 one show ?thesis by simp
qed

lemma round_even_of_int: "round_even (of_int z) = z"
  by (simp add: round_even_def)

lemma round_double_nat:
  assumes "n < 2 ^ 53"
  shows "round_double (real n) = real n"
proof (cases "n = 0")
  case True
  then show ?thesis by (simp add: round_double_def)
next
  case False
  then have nz: "real n \<noteq> 0" and pos: "1 \<le> real n" by simp_all
  define k where "k = binade (real n)"
  from binade_bounds [OF nz] have b: "2 powi k \<le> real n" "real n < 2 powi (k + 1)"
    by (simp_all add: k_def)
  have k0: "0 \<le> k"
  proof (rule ccontr)
    assume "\<not> 0 \<le> k"
    then have "k + 1 \<le> 0" by simp
    then have "(2::real) powi (k + 1) \<le> 2 powi 0"
      by (intro power_int_increasing) simp_all
    with b(2) pos show False by simp
  qed
  have k52: "k \<le> 52"
  proof (rule ccontr)
    assume "\<not> k \<le> 52"
    then have "53 \<le> k" by simp
    then have "(2::real) powi 53 \<le> 2 powi k"
      by (intro power_int_increasing) simp_all
    with b(1) have "(2::real) ^ 53 \<le> real n" by simp
    moreover from assms have "real n < 2 ^ 53"
      by (metis of_nat_less_iff of_nat_numeral of_nat_power)
    ultimately show False by simp
  qed
  define d where "d = nat (52 - k)"
  from k0 k52 have kd: "k - 52 = - int d" by (simp add: d_def)
  from k0 kd have "max (k - 52) (- 1074) = - int d" by simp
  then have q: "(2::real) powi (max (k - 52) (- 1074)) = 1 / 2 ^ d"
    by (simp add: power_int_minus field_simps)
  have "real n / (1 / 2 ^ d) = of_int (int (n * 2 ^ d))" by simp
  then have "round_even (real n / (1 / 2 ^ d)) = int (n * 2 ^ d)"
    by (simp only: round_even_of_int)
  with nz q show ?thesis
    by (simp add: round_double_def k_def [symmetric] Let_def)
qed

lemma double_of_real_nat:
  assumes "n < 2 ^ 53"
  shows "double_of_real (real n) = Finite (real n)"
proof -
  from assms have "real n < 2 ^ 53"
    by (metis of_nat_less_iff of_nat_numeral of_nat_power)
  moreover have "(2::real) ^ 53 \<le> max_double" by (simp add: max_double_def)
  ultimately have "\<not> max_double < real n" "\<not> real n < - max_double" by simp_all
  with round_double_nat [OF assms] show ?thesis
    by (simp add: double_of_real_def)
qed

lemma double_of_real_0: "double_of_real 0 = Finite 0"
  using double_of_real_nat [of 0] by simp

lemma double_of_real_small:
  assumes "0 \<le> round_double x" and "round_double x \<le> 4"
  shows "double_of_real x = Finite (round_double x)"
proof -
  have "4 \<le> max_double" by (simp add: max_double_def)
  with assms show ?thesis by (simp add: double_of_real_def)
qed

lemma round_even_nonneg: "0 \<le> y \<Longrightarrow> 0 \<le> round_even y"
  by (simp add: round_even_def Let_def)

lemma round_double_nonneg:
  assumes "0 \<le> x"
  shows "0 \<le> round_double x"
proof (cases "x = 0")
  case True
  then show ?thesis by (simp add: round_double_def)
next
  case False
  let ?q = "(2::real) powi (max (binade x - 52) (- 1074))"
  have "0 < ?q" by simp
  with assms have "0 \<le> x / ?q" by simp
  then have "0 \<le> round_even (x / ?q)" by (rule round_even_nonneg)
  with False show ?thesis by (simp add: round_double_def Let_def)
qed

lemma double_of_real_numerals:
  "double_of_real 0 = Finite 0" "double_of_real 1 = Finite 1" "double_of_real 2 = Finite 2"
  "double_of_real 3 = Finite 3" "double_of_real 4 = Finite 4"
  by (simp_all add: double_defs Let_def)

section \<open>The resampling loops\<close>

lemma cumulative_Suc:
  "Suc i < length ws \<Longrightarrow> cumulative ws (Suc i) = cumulative ws i + ws ! Suc i"
  by (simp add: cumulative_def take_Suc_conv_app_nth)

lemma cumulative_0: "ws \<noteq> [] \<Longrightarrow> cumulative ws 0 = hd ws"
  by (cases ws) (simp_all add: cumulative_def)

lemma cumulative_last: "cumulative ws (length ws - 1) = sum_list ws"
  by (simp add: cumulative_def)

lemma running_numeral:
  "running fl ps (numeral k) =
     double_add fl (running fl ps (pred_numeral k)) (m_fWeight (ps ! numeral k))"
  by (simp add: numeral_eq_Suc)

lemma running_1: "running fl ps 1 = double_add fl (running fl ps 0) (m_fWeight (ps ! 1))"
  by (simp only: One_nat_def running.simps)

lemma finite_weights_nth:
  assumes "map m_fWeight ps = map Finite ws" and "i < length ps"
  shows "m_fWeight (ps ! i) = Finite (ws ! i)"
proof -
  from assms(1) have len: "length ws = length ps"
    by (metis length_map)
  from assms(2) have "m_fWeight (ps ! i) = map m_fWeight ps ! i" by simp
  also have "\<dots> = map Finite ws ! i" by (simp only: assms(1))
  also have "\<dots> = Finite (ws ! i)" using assms(2) len by simp
  finally show ?thesis .
qed

lemma running_exact:
  assumes "map m_fWeight ps = map Finite ws"
  shows "i < length ps \<Longrightarrow> running Finite ps i = Finite (cumulative ws i)"
proof (induction i)
  case 0
  from assms have len: "length ws = length ps" by (metis length_map)
  with 0 have ne: "ps \<noteq> []" "ws \<noteq> []" by auto
  from finite_weights_nth [OF assms 0] ne show ?case
    by (simp add: cumulative_0 hd_conv_nth)
next
  case (Suc i)
  from assms have len: "length ws = length ps" by (metis length_map)
  from Suc finite_weights_nth [OF assms Suc.prems] len show ?case
    by (simp add: cumulative_Suc)
qed

lemma advance_Inr:
  "advance fl ps u i c = Inr (i', c') \<Longrightarrow> i < length ps \<Longrightarrow> c = running fl ps i \<Longrightarrow>
     i \<le> i' \<and> i' < length ps \<and> c' = running fl ps i' \<and> \<not> double_less c' u
     \<and> (\<forall>j. i \<le> j \<and> j < i' \<longrightarrow> double_less (running fl ps j) u)"
proof (induction fl ps u i c rule: advance.induct)
  case (1 fl ps u i c)
  note unfold = advance.simps [of fl ps u i c]
  show ?case
  proof (cases "double_less c u")
    case False
    with "1.prems"(1) have "i' = i" "c' = c"
      unfolding unfold by simp_all
    with False "1.prems"(2,3) show ?thesis by auto
  next
    case True
    with "1.prems"(1) have lt: "Suc i < length ps"
      unfolding unfold by (simp split: if_splits)
    with True "1.prems"(1) have rec:
      "advance fl ps u (Suc i) (double_add fl c (m_fWeight (ps ! Suc i))) = Inr (i', c')"
      unfolding unfold by simp
    have "double_add fl c (m_fWeight (ps ! Suc i)) = running fl ps (Suc i)"
      using "1.prems"(3) by simp
    with "1.IH" [OF True lt rec lt] have IH: "Suc i \<le> i'" "i' < length ps" "c' = running fl ps i'"
      "\<not> double_less c' u" "\<forall>j. Suc i \<le> j \<and> j < i' \<longrightarrow> double_less (running fl ps j) u"
      by auto
    have "double_less (running fl ps j) u" if "i \<le> j" "j < i'" for j
    proof (cases "j = i")
      case True
      then show ?thesis using \<open>double_less c u\<close> "1.prems"(3) by simp
    next
      case False
      with that IH(5) show ?thesis by (simp add: Suc_leI)
    qed
    with IH show ?thesis by auto
  qed
qed

lemma advance_total:
  "i < length ps \<Longrightarrow> c = running fl ps i \<Longrightarrow>
   \<not> double_less (running fl ps (length ps - 1)) u \<Longrightarrow>
     \<exists>i' c'. advance fl ps u i c = Inr (i', c')"
proof (induction fl ps u i c rule: advance.induct)
  case (1 fl ps u i c)
  note unfold = advance.simps [of fl ps u i c]
  show ?case
  proof (cases "double_less c u")
    case False
    then show ?thesis unfolding unfold by simp
  next
    case True
    have lt: "Suc i < length ps"
    proof (rule ccontr)
      assume "\<not> Suc i < length ps"
      with "1.prems"(1) have "i = length ps - 1" by simp
      with "1.prems"(2,3) True show False by simp
    qed
    have "double_add fl c (m_fWeight (ps ! Suc i)) = running fl ps (Suc i)"
      using "1.prems"(2) by simp
    from "1.IH" [OF True lt lt this "1.prems"(3)] show ?thesis
      unfolding unfold using True lt by simp
  qed
qed

lemma selected_sorted: "selected fl ps r s m i sel \<Longrightarrow> sorted (i # sel)"
proof (induction sel arbitrary: m i)
  case Nil
  then show ?case by simp
next
  case (Cons x sel)
  from Cons.prems have "i \<le> x" "selected fl ps r s (Suc m) x sel" by simp_all
  with Cons.IH [of "Suc m" x] show ?case by auto
qed

lemma selected_nth:
  "selected fl ps r s m i sel \<Longrightarrow> k < length sel \<Longrightarrow>
     (if k = 0 then i else sel ! (k - 1)) \<le> sel ! k \<and> sel ! k < length ps
     \<and> \<not> double_less (running fl ps (sel ! k)) (target fl r s (m + k))
     \<and> (\<forall>j. (if k = 0 then i else sel ! (k - 1)) \<le> j \<and> j < sel ! k
            \<longrightarrow> double_less (running fl ps j) (target fl r s (m + k)))"
proof (induction sel arbitrary: m i k)
  case Nil
  then show ?case by simp
next
  case (Cons x sel)
  show ?case
  proof (cases k)
    case 0
    with Cons.prems show ?thesis by simp
  next
    case (Suc k')
    from Cons.prems have sel: "selected fl ps r s (Suc m) x sel" by simp
    from Cons.prems Suc have "k' < length sel" by simp
    from Cons.IH [OF sel this] show ?thesis
      using Suc by (cases k') simp_all
  qed
qed

lemma selected_in_bounds:
  assumes "selected fl ps r s m i sel"
  shows "\<forall>x \<in> set sel. x < length ps"
proof
  fix x assume "x \<in> set sel"
  then obtain k where "k < length sel" "sel ! k = x"
    by (auto simp: in_set_conv_nth)
  with selected_nth [OF assms, of k] show "x < length ps" by simp
qed

lemma SParticle_copy_store:
  "SParticle_copy w p h = (p', h') \<Longrightarrow> \<exists>cells. h' = h @ cells \<and> length cells = 3"
  by (auto simp: SParticle_copy_def COccupancyGrid_copy_def Mat_clone_def Mat_create_def
        Let_def split: prod.splits)

lemma resample_loop_Inr:
  "resample_loop fl E ps r s m i c new trace h = Inr (new', trace', h') \<Longrightarrow>
   i < length ps \<Longrightarrow> c = running fl ps i \<Longrightarrow>
     \<exists>sel cp cells. trace' = trace @ sel \<and> new' = new @ cp \<and> h' = h @ cells
       \<and> length sel = length ps - m \<and> length cp = length ps - m
       \<and> length cells = 3 * (length ps - m)
       \<and> selected fl ps r s m i sel
       \<and> (\<forall>k < length ps - m. cp ! k =
            fst (SParticle_copy (uninitialised_fWeight E (m + k)) (ps ! (sel ! k))
                   (take (length h + 3 * k) h')))"
proof (induction fl E ps r s m i c new trace h rule: resample_loop.induct)
  case (1 fl E ps r s m i c new trace h)
  note unfold = resample_loop.simps [of fl E ps r s m i c new trace h]
  show ?case
  proof (cases "m < length ps")
    case False
    with "1.prems"(1) show ?thesis
      unfolding unfold by simp
  next
    case True
    let ?u = "double_add fl r (double_mult fl (fl (real m)) s)"
    from "1.prems"(1) True obtain i' c' where
      adv: "advance fl ps ?u i c = Inr (i', c')"
      unfolding unfold by (cases "advance fl ps ?u i c") auto
    obtain p h1 where cp: "SParticle_copy (uninitialised_fWeight E m) (ps ! i') h = (p, h1)"
      by (cases "SParticle_copy (uninitialised_fWeight E m) (ps ! i') h")
    from "1.prems"(1) True adv cp have rec:
      "resample_loop fl E ps r s (Suc m) i' c' (new @ [p]) (trace @ [i']) h1
         = Inr (new', trace', h')"
      unfolding unfold by simp
    from advance_Inr [OF adv "1.prems"(2,3)] have a:
      "i \<le> i'" "i' < length ps" "c' = running fl ps i'" "\<not> double_less (running fl ps i') ?u"
      "\<forall>j. i \<le> j \<and> j < i' \<longrightarrow> double_less (running fl ps j) ?u"
      by auto
    from "1.IH" [OF True adv refl cp [symmetric] rec a(2,3)] obtain sel cp' cells where IH:
      "trace' = (trace @ [i']) @ sel" "new' = (new @ [p]) @ cp'" "h' = h1 @ cells"
      "length sel = length ps - Suc m" "length cp' = length ps - Suc m"
      "length cells = 3 * (length ps - Suc m)"
      "selected fl ps r s (Suc m) i' sel"
      "\<forall>k < length ps - Suc m. cp' ! k =
            fst (SParticle_copy (uninitialised_fWeight E (Suc m + k)) (ps ! (sel ! k))
                   (take (length h1 + 3 * k) h'))"
      by blast
    from SParticle_copy_store [OF cp] obtain c3 where c3: "h1 = h @ c3" "length c3 = 3"
      by blast
    have sel: "selected fl ps r s m i (i' # sel)"
      using a IH(7) by (simp add: target_def)
    have nth: "(p # cp') ! k =
            fst (SParticle_copy (uninitialised_fWeight E (m + k)) (ps ! ((i' # sel) ! k))
                   (take (length h + 3 * k) h'))" if "k < length ps - m" for k
    proof (cases k)
      case 0
      have "take (length h) h' = h" using IH(3) c3 by simp
      with 0 cp show ?thesis by simp
    next
      case (Suc k')
      with that have "k' < length ps - Suc m" by simp
      with IH(8) have "cp' ! k' =
            fst (SParticle_copy (uninitialised_fWeight E (Suc m + k')) (ps ! (sel ! k'))
                   (take (length h1 + 3 * k') h'))" by blast
      moreover have "length h1 + 3 * k' = length h + 3 * k" using c3 Suc by simp
      ultimately show ?thesis using Suc by simp
    qed
    have "trace' = trace @ (i' # sel)" "new' = new @ (p # cp')" "h' = h @ (c3 @ cells)"
      using IH(1,2,3) c3 by simp_all
    moreover have "length (i' # sel) = length ps - m" "length (p # cp') = length ps - m"
      "length (c3 @ cells) = 3 * (length ps - m)"
      using IH(4,5,6) c3 True by simp_all
    ultimately show ?thesis using sel nth by blast
  qed
qed

lemma resample_loop_total:
  "i < length ps \<Longrightarrow> c = running fl ps i \<Longrightarrow>
   (\<And>k. k < length ps \<Longrightarrow>
      \<not> double_less (running fl ps (length ps - 1)) (target fl r s k)) \<Longrightarrow>
     \<exists>new' trace' h'. resample_loop fl E ps r s m i c new trace h = Inr (new', trace', h')"
proof (induction fl E ps r s m i c new trace h rule: resample_loop.induct)
  case (1 fl E ps r s m i c new trace h)
  note unfold = resample_loop.simps [of fl E ps r s m i c new trace h]
  show ?case
  proof (cases "m < length ps")
    case False
    then show ?thesis unfolding unfold by simp
  next
    case True
    let ?u = "double_add fl r (double_mult fl (fl (real m)) s)"
    from "1.prems"(3) [OF True] have "\<not> double_less (running fl ps (length ps - 1)) ?u"
      by (simp add: target_def)
    from advance_total [OF "1.prems"(1,2) this] obtain i' c' where
      adv: "advance fl ps ?u i c = Inr (i', c')"
      by blast
    obtain p h1 where cp: "SParticle_copy (uninitialised_fWeight E m) (ps ! i') h = (p, h1)"
      by (cases "SParticle_copy (uninitialised_fWeight E m) (ps ! i') h")
    from advance_Inr [OF adv "1.prems"(1,2)] have a: "i' < length ps" "c' = running fl ps i'"
      by auto
    from "1.IH" [OF True adv refl cp [symmetric] a "1.prems"(3)]
    show ?thesis unfolding unfold using True adv cp by simp
  qed
qed

lemma target_le_total:
  fixes r W :: real
  assumes "0 \<le> r" and "r \<le> W / real n" and "k < n"
  shows "r + real k * (W / real n) \<le> W"
proof -
  define s where "s = W / real n"
  from assms have step: "0 \<le> s" "r \<le> s" by (simp_all add: s_def)
  have "r + real k * s \<le> s + real k * s"
    using step(2) by simp
  also have "\<dots> = real (Suc k) * s"
    by (simp add: distrib_right)
  also have "\<dots> \<le> real n * s"
    using assms(3) step(1) by (intro mult_right_mono) simp_all
  also have "\<dots> = W"
    using assms(3) by (simp add: s_def)
  finally show ?thesis by (simp add: s_def)
qed

lemma resample_Inr:
  assumes "resample fl E W ps h = Inr (new, trace, h')"
  shows "ps \<noteq> [] \<and> length trace = length ps \<and> length new = length ps
       \<and> take (length h) h' = h
       \<and> selected fl ps (uniform_real E) (double_divide fl W (fl (real (length ps)))) 0 0 trace
       \<and> (\<forall>k < length ps. new ! k =
            fst (SParticle_copy (uninitialised_fWeight E k) (ps ! (trace ! k))
                   (take (length h + 3 * k) h')))"
proof -
  from assms have ne: "ps \<noteq> []"
    by (auto simp: resample_def split: if_splits)
  with assms have loop:
    "resample_loop fl E ps (uniform_real E) (double_divide fl W (fl (real (length ps)))) 0 0
       (m_fWeight (hd ps)) [] [] h = Inr (new, trace, h')"
    by (simp add: resample_def Let_def)
  from ne have "0 < length ps" "m_fWeight (hd ps) = running fl ps 0"
    by simp_all
  from resample_loop_Inr [OF loop this] ne show ?thesis
    by auto
qed

lemma resample_total:
  assumes "ps \<noteq> []"
      and "\<And>k. k < length ps \<Longrightarrow>
             \<not> double_less (running fl ps (length ps - 1))
                 (target fl (uniform_real E) (double_divide fl W (fl (real (length ps)))) k)"
  shows "\<exists>new trace h'. resample fl E W ps h = Inr (new, trace, h')"
proof -
  from assms(1) have "0 < length ps" "m_fWeight (hd ps) = running fl ps 0"
    by simp_all
  from resample_loop_total [OF this assms(2)] assms(1) show ?thesis
    by (simp add: resample_def Let_def)
qed

lemma target_exact: "target Finite (Finite r) (Finite s) k = Finite (r + real k * s)"
  by (simp add: target_def)

lemma step_exact:
  "ps \<noteq> [] \<Longrightarrow>
     double_divide Finite (Finite W) (Finite (real (length ps))) = Finite (W / real (length ps))"
  by simp

lemma resample_total_exact:
  assumes "ps \<noteq> []" and "map m_fWeight ps = map Finite ws" and "W = sum_list ws"
      and "uniform_real E = Finite r" and "0 \<le> r" and "r \<le> W / real (length ps)"
  shows "\<exists>new trace h'. resample Finite E (Finite W) ps h = Inr (new, trace, h')"
proof (rule resample_total [OF assms(1)])
  fix k assume k: "k < length ps"
  from assms(2) have len: "length ws = length ps" by (metis length_map)
  from assms(1) have "length ps - 1 < length ps" by simp
  from running_exact [OF assms(2) this] len
  have "running Finite ps (length ps - 1) = Finite (sum_list ws)"
    using cumulative_last [of ws] by simp
  with target_le_total [OF assms(5,6) k] assms(1,3,4)
  show "\<not> double_less (running Finite ps (length ps - 1))
           (target Finite (uniform_real E)
              (double_divide Finite (Finite W) (Finite (real (length ps)))) k)"
    by (simp add: target_exact)
qed

lemma running_zero:
  assumes "fl 0 = Finite 0" and "\<forall>p \<in> set ps. m_fWeight p = Finite 0" and "j < length ps"
  shows "running fl ps j = Finite 0"
  using assms(3)
proof (induction j)
  case 0
  then have "hd ps \<in> set ps" by (cases ps) simp_all
  with assms(2) show ?case by simp
next
  case (Suc j)
  then have "ps ! Suc j \<in> set ps" by simp
  with assms Suc show ?case by simp
qed

lemma target_zero:
  assumes "fl 0 = Finite 0" and "fl (real k) = Finite x"
  shows "target fl (Finite 0) (Finite 0) k = Finite 0"
  using assms by (simp add: target_def)

lemma weights_all_zero:
  fixes ws :: "real list"
  assumes "\<forall>w \<in> set ws. 0 \<le> w" and "sum_list ws = 0"
  shows "\<forall>w \<in> set ws. w = 0"
  using assms by (subst sum_list_nonneg_eq_0_iff [symmetric]) auto

text \<open>
  With weights that are all 0, the offset 0 and a step size 0, the loop returns and never
  moves its index, in every arithmetic that has the numbers up to the size of the
  population.
\<close>

lemma resample_zero:
  assumes "ps \<noteq> []" and "\<forall>p \<in> set ps. m_fWeight p = Finite 0"
      and "\<forall>k \<le> length ps. fl (real k) = Finite (real k)"
      and "uniform_real E = Finite 0"
      and "double_divide fl W (fl (real (length ps))) = Finite 0"
  shows "\<exists>new h'. resample fl E W ps h = Inr (new, replicate (length ps) 0, h')
           \<and> length new = length ps
           \<and> (\<forall>k < length ps. new ! k =
                 fst (SParticle_copy (uninitialised_fWeight E k) (hd ps)
                        (take (length h + 3 * k) h')))"
proof -
  from assms(3) have fl0: "fl 0 = Finite 0"
    by (metis le0 of_nat_0)
  have tg: "target fl (uniform_real E) (double_divide fl W (fl (real (length ps)))) k = Finite 0"
    if "k < length ps" for k
  proof -
    from that assms(3) have "fl (real k) = Finite (real k)" by simp
    from target_zero [OF fl0 this] assms(4,5) show ?thesis by simp
  qed
  have top: "\<not> double_less (running fl ps (length ps - 1))
               (target fl (uniform_real E) (double_divide fl W (fl (real (length ps)))) k)"
    if "k < length ps" for k
  proof -
    from assms(1) have "length ps - 1 < length ps" by simp
    with running_zero [of fl ps "length ps - 1"] fl0 assms(2) tg [OF that] show ?thesis
      by simp
  qed
  from resample_total [OF assms(1) top] obtain new trace h' where
    rs: "resample fl E W ps h = Inr (new, trace, h')"
    by blast
  from resample_Inr [OF rs] have len: "length trace = length ps" "length new = length ps"
    and sel: "selected fl ps (uniform_real E) (double_divide fl W (fl (real (length ps)))) 0 0 trace"
    and cp: "\<forall>k < length ps. new ! k =
            fst (SParticle_copy (uninitialised_fWeight E k) (ps ! (trace ! k))
                   (take (length h + 3 * k) h'))"
    by simp_all
  have zero: "trace ! k = 0" if "k < length ps" for k
    using that
  proof (induction k)
    case 0
    have "trace ! 0 = 0"
    proof (rule ccontr)
      assume "trace ! 0 \<noteq> 0"
      with selected_nth [OF sel, of 0] 0 len
      have "double_less (running fl ps 0) (target fl (uniform_real E)
              (double_divide fl W (fl (real (length ps)))) 0)"
        by auto
      with running_zero [of fl ps 0] fl0 assms(2) 0 tg [OF 0] show False by simp
    qed
    then show ?case .
  next
    case (Suc k)
    then have prev: "trace ! k = 0" by simp
    have "trace ! Suc k = 0"
    proof (rule ccontr)
      assume "trace ! Suc k \<noteq> 0"
      with selected_nth [OF sel, of "Suc k"] Suc.prems len prev
      have "double_less (running fl ps 0) (target fl (uniform_real E)
              (double_divide fl W (fl (real (length ps)))) (Suc k))"
        by auto
      moreover from assms(1) have "0 < length ps" by simp
      ultimately show False
        using running_zero [of fl ps 0] fl0 assms(2) tg [OF Suc.prems] by simp
    qed
    then show ?case .
  qed
  with len have trace: "trace = replicate (length ps) 0"
    by (intro nth_equalityI) simp_all
  with cp assms(1) have "\<forall>k < length ps. new ! k =
            fst (SParticle_copy (uninitialised_fWeight E k) (hd ps) (take (length h + 3 * k) h'))"
    by (simp add: hd_conv_nth)
  with rs trace len show ?thesis by blast
qed

lemma max_element_loop_bound:
  "largest < length ws \<Longrightarrow> max_element_loop ws largest first < length ws"
proof (induction ws largest first rule: max_element_loop.induct)
  case (1 ws largest first)
  note unfold = max_element_loop.simps [of ws largest first]
  show ?case
  proof (cases "first < length ws")
    case False
    with "1.prems" show ?thesis unfolding unfold by simp
  next
    case True
    let ?l = "if double_less (ws ! largest) (ws ! first) then first else largest"
    from True "1.prems" have "?l < length ws" by simp
    from "1.IH" [OF True this] show ?thesis
      unfolding unfold using True by simp
  qed
qed

lemma max_element_bound: "ws \<noteq> [] \<Longrightarrow> max_element ws < length ws"
  using max_element_loop_bound [of 0 ws 1] by (simp add: max_element_def)

section \<open>One call of the filter\<close>

lemma update_particles_Inr:
  "update_particles X E scanline i ps tot h = Inr (ps', tot', h') \<Longrightarrow>
     length ps' = length ps
     \<and> tot' = fold (\<lambda>p t. double_add (rounding X) t (m_fWeight p)) ps' tot"
proof (induction ps arbitrary: i tot h ps')
  case Nil
  then show ?case by simp
next
  case (Cons p ps)
  let ?t = "\<lambda>p1. double_add (rounding X) tot (m_fWeight p1)"
  from Cons.prems obtain p1 h1 where up: "SParticle_update X E i scanline p h = Inr (p1, h1)"
    by (cases "SParticle_update X E i scanline p h") auto
  with Cons.prems obtain ps1 where
    rec: "update_particles X E scanline (Suc i) ps (?t p1) h1 = Inr (ps1, tot', h')"
    and ps': "ps' = p1 # ps1"
    by (cases "update_particles X E scanline (Suc i) ps (?t p1) h1") auto
  from Cons.IH [OF rec] ps' show ?case by simp
qed

lemma update_particles_total:
  assumes "scanline \<noteq> []"
  shows "\<exists>ps' W h'. update_particles X E scanline i ps tot h = Inr (ps', W, h')"
proof (induction ps arbitrary: i tot h)
  case Nil
  show ?case by simp
next
  case (Cons p ps)
  from assms obtain p1 h1 where up: "SParticle_update X E i scanline p h = Inr (p1, h1)"
    by (simp add: SParticle_update_def SScanLine_translation_def SScanLine_rotation_def Let_def)
  from Cons [of "Suc i" "double_add (rounding X) tot (m_fWeight p1)" h1] obtain ps1 W h2 where
    "update_particles X E scanline (Suc i) ps (double_add (rounding X) tot (m_fWeight p1)) h1
       = Inr (ps1, W, h2)"
    by blast
  with up show ?case by simp
qed


lemma total_exact:
  "map m_fWeight ps = map Finite ws \<Longrightarrow>
     fold (\<lambda>p t. double_add Finite t (m_fWeight p)) ps (Finite t0) = Finite (t0 + sum_list ws)"
proof (induction ps arbitrary: ws t0)
  case Nil
  then show ?case by simp
next
  case (Cons p ps)
  from Cons.prems obtain w ws' where ws: "ws = w # ws'" "m_fWeight p = Finite w"
    "map m_fWeight ps = map Finite ws'"
    by (cases ws) auto
  from Cons.IH [OF ws(3), of "t0 + w"] ws show ?case by simp
qed

lemma SScanLine_add_seed:
  "SScanLine_add X data (SScanLine_clear scanline) = (True, [seed_scan X data])"
  by (simp add: SScanLine_add_def SScanLine_clear_def seed_scan_def)

lemma SScanLine_add_reject:
  "\<not> fst (SScanLine_add X data scanline) \<Longrightarrow> SScanLine_add X data scanline = (False, scanline)"
  by (auto simp: SScanLine_add_def Let_def split: if_splits)

lemma SScanLine_add_reject_nonempty:
  "\<not> fst (SScanLine_add X data scanline) \<Longrightarrow> scanline \<noteq> []"
  by (auto simp: SScanLine_add_def)

lemma SScanLine_add_accept:
  "fst (SScanLine_add X data scanline) \<Longrightarrow>
     SScanLine_add X data scanline =
       (True, scanline @ [\<lparr>scan_pose = UpdatePose X (if scanline = [] then pose_zero
                                                      else scan_pose (last scanline)) data,
                            scan_nAngle = m_nAngle data, scan_nDistance = m_nDistance data\<rparr>])"
  by (auto simp: SScanLine_add_def Let_def split: if_splits)

lemma accept_branch:
  assumes "fst (SScanLine_add X data (m_scanline s))"
  shows "CParticleSLAM_receivedSensorData X E data (s, h) =
           Inr (False, s\<lparr>m_scanline := snd (SScanLine_add X data (m_scanline s))\<rparr>, h)"
  using assms
  by (cases "SScanLine_add X data (m_scanline s)")
     (simp add: CParticleSLAM_receivedSensorData_def)

lemma reject_branch:
  assumes "\<not> fst (SScanLine_add X data (m_scanline s))"
  shows "CParticleSLAM_receivedSensorData X E data (s, h) =
     (case update_particles X E (m_scanline s) 0 (m_vecparticle s) (Finite 0) h of
        Inl e \<Rightarrow> Inl e
      | Inr (ps, fWeightTotal, h1) \<Rightarrow>
         (case resample (rounding X) E fWeightTotal ps h1 of
            Inl e \<Rightarrow> Inl e
          | Inr (vecparticleNew, trace, h2) \<Rightarrow>
             (let it = max_element (map m_fWeight vecparticleNew)
              in if it = length vecparticleNew then Inl IndexOutOfRange
                 else Inr (True,
                        \<lparr>m_vecparticle = vecparticleNew,
                          m_itparticle = it,
                          m_scanline = [seed_scan X data],
                          m_vecpose = m_vecpose s @ [m_pose (vecparticleNew ! it)]\<rparr>,
                        h2))))"
  using SScanLine_add_reject [OF assms]
  by (simp add: CParticleSLAM_receivedSensorData_def SScanLine_add_seed Let_def
        split: sum.splits prod.splits)

lemma true_return:
  assumes "CParticleSLAM_receivedSensorData X E data (s, h) = Inr (True, s', h')"
  shows "\<not> fst (SScanLine_add X data (m_scanline s))
       \<and> (\<exists>ps W h1 trace.
            update_particles X E (m_scanline s) 0 (m_vecparticle s) (Finite 0) h = Inr (ps, W, h1)
          \<and> resample (rounding X) E W ps h1 = Inr (m_vecparticle s', trace, h')
          \<and> m_itparticle s' = max_element (map m_fWeight (m_vecparticle s'))
          \<and> m_itparticle s' < length (m_vecparticle s')
          \<and> m_scanline s' = [seed_scan X data]
          \<and> m_vecpose s' = m_vecpose s @ [m_pose (m_vecparticle s' ! m_itparticle s')])"
proof -
  have rej: "\<not> fst (SScanLine_add X data (m_scanline s))"
  proof
    assume "fst (SScanLine_add X data (m_scanline s))"
    from accept_branch [OF this, of E h] assms show False by simp
  qed
  note eq = assms [unfolded reject_branch [OF rej]]
  from eq obtain ps W h1 where
    up: "update_particles X E (m_scanline s) 0 (m_vecparticle s) (Finite 0) h = Inr (ps, W, h1)"
    by (cases "update_particles X E (m_scanline s) 0 (m_vecparticle s) (Finite 0) h") auto
  from eq up obtain new trace h2 where rs: "resample (rounding X) E W ps h1 = Inr (new, trace, h2)"
    by (cases "resample (rounding X) E W ps h1") auto
  from resample_Inr [OF rs] have "new \<noteq> []" by auto
  then have "max_element (map m_fWeight new) < length new"
    using max_element_bound [of "map m_fWeight new"] by simp
  with eq up rs have "s' = \<lparr>m_vecparticle = new,
                          m_itparticle = max_element (map m_fWeight new),
                          m_scanline = [seed_scan X data],
                          m_vecpose = m_vecpose s @ [m_pose (new ! max_element (map m_fWeight new))]\<rparr>"
    "h' = h2"
    by (simp_all add: Let_def)
  with rej up rs \<open>max_element (map m_fWeight new) < length new\<close> show ?thesis
    by simp
qed


lemma call_keeps_size:
  assumes "CParticleSLAM_receivedSensorData X E data (s, h) = Inr (b, s', h')"
  shows "length (m_vecparticle s') = length (m_vecparticle s)"
proof (cases b)
  case False
  have "fst (SScanLine_add X data (m_scanline s))"
  proof (rule ccontr)
    assume rej: "\<not> fst (SScanLine_add X data (m_scanline s))"
    from assms False show False
      unfolding reject_branch [OF rej]
      by (auto simp: Let_def split: sum.splits if_splits)
  qed
  from accept_branch [OF this, of E h] assms show ?thesis by simp
next
  case True
  with assms have "CParticleSLAM_receivedSensorData X E data (s, h) = Inr (True, s', h')"
    by simp
  from true_return [OF this] obtain ps W h1 trace where
    "update_particles X E (m_scanline s) 0 (m_vecparticle s) (Finite 0) h = Inr (ps, W, h1)"
    "resample (rounding X) E W ps h1 = Inr (m_vecparticle s', trace, h')"
    by blast
  with update_particles_Inr resample_Inr show ?thesis by metis
qed

section \<open>Properties of the scan line accumulator\<close>

lemma CompareAngle_sgn: "CompareAngle lhs rhs = sgn (lhs - rhs)"
  by (simp add: CompareAngle_def sgn_if)

text \<open>
  C3. \<^verbatim>\<open>add\<close> accepts a sample when the buffer is empty, or when the sign of the comparison of
  the first with the last buffered bearing and the sign of the comparison of the last
  buffered bearing with the new one are equal or one of them is zero; it then appends the
  sample. It rejects, and leaves the buffer as it is, exactly when the buffer is not empty
  and the two signs are both nonzero and differ.
\<close>

theorem SScanLine_add_sweep:
  fixes X :: "'img externals" and data m_vecscan
  defines "s1 \<equiv> sgn (scan_nAngle (hd m_vecscan) - scan_nAngle (last m_vecscan))"
      and "s2 \<equiv> sgn (scan_nAngle (last m_vecscan) - m_nAngle data)"
      and "res \<equiv> SScanLine_add X data m_vecscan"
  shows "(fst res \<longleftrightarrow> m_vecscan = [] \<or> s1 = s2 \<or> s1 = 0 \<or> s2 = 0)
       \<and> (\<not> fst res \<longleftrightarrow> m_vecscan \<noteq> [] \<and> s1 \<noteq> 0 \<and> s2 \<noteq> 0 \<and> s1 \<noteq> s2)
       \<and> (fst res \<longrightarrow> snd res = m_vecscan @
             [\<lparr>scan_pose = UpdatePose X (if m_vecscan = [] then pose_zero
                                          else scan_pose (last m_vecscan)) data,
               scan_nAngle = m_nAngle data, scan_nDistance = m_nDistance data\<rparr>])
       \<and> (\<not> fst res \<longrightarrow> snd res = m_vecscan)"
  unfolding s1_def s2_def res_def
  by (auto simp: SScanLine_add_def Let_def CompareAngle_sgn)

theorem SScanLine_add_sweep_witness:
  "\<not> fst (SScanLine_add (test_externals (\<lambda>p. 1)) (test_data 25 115)
            [test_scan 10 100, test_scan 20 110, test_scan 30 120])
   \<and> snd (SScanLine_add (test_externals (\<lambda>p. 1)) (test_data 25 115)
            [test_scan 10 100, test_scan 20 110, test_scan 30 120])
       = [test_scan 10 100, test_scan 20 110, test_scan 30 120]
   \<and> fst (SScanLine_add (test_externals (\<lambda>p. 1)) (test_data 30 120)
            [test_scan 10 100, test_scan 20 110])
   \<and> snd (SScanLine_add (test_externals (\<lambda>p. 1)) (test_data 30 120)
            [test_scan 10 100, test_scan 20 110])
       = [test_scan 10 100, test_scan 20 110, test_scan 30 120]"
  using SScanLine_add_sweep [of "test_externals (\<lambda>p. 1)" "test_data 25 115"
          "[test_scan 10 100, test_scan 20 110, test_scan 30 120]"]
        SScanLine_add_sweep [of "test_externals (\<lambda>p. 1)" "test_data 30 120"
          "[test_scan 10 100, test_scan 20 110]"]
  by (simp add: test_defs pose_zero_def)

section \<open>Calls that extend the line\<close>

text \<open>
  C9. When the accumulator accepts the sample, \<^verbatim>\<open>receivedSensorData\<close> returns false; the
  particles, the best-particle iterator, the trajectory and the store of pixel buffers are
  what they were, and the scan line is the old one with the new sample at its end.
\<close>

theorem receivedSensorData_accepted:
  assumes "fst (SScanLine_add X data (m_scanline s))"
  shows "CParticleSLAM_receivedSensorData X E data (s, h) =
           Inr (False,
                s\<lparr>m_scanline := m_scanline s @
                     [\<lparr>scan_pose = UpdatePose X (if m_scanline s = [] then pose_zero
                                                  else scan_pose (last (m_scanline s))) data,
                       scan_nAngle = m_nAngle data, scan_nDistance = m_nDistance data\<rparr>]\<rparr>,
                h)"
  using accept_branch [OF assms, of E h] SScanLine_add_accept [OF assms]
  by simp

theorem receivedSensorData_accepted_witness:
  "fst (SScanLine_add (test_externals (\<lambda>p. 1)) (test_data 30 120) (m_scanline (fst test_filter2)))
   \<and> CParticleSLAM_receivedSensorData (test_externals (\<lambda>p. 1)) (test_entropy 0 (\<lambda>m. Finite 0)) (test_data 30 120)
       test_filter2 =
         Inr (False,
              (fst test_filter2)\<lparr>m_scanline := [test_scan 10 100, test_scan 20 110, test_scan 30 120]\<rparr>,
              snd test_filter2)"
proof -
  have a: "fst (SScanLine_add (test_externals (\<lambda>p. 1)) (test_data 30 120) (m_scanline (fst test_filter2)))"
    by (simp add: SScanLine_add_def CompareAngle_def test_defs)
  from receivedSensorData_accepted [OF a, of "test_entropy 0 (\<lambda>m. Finite 0)" "snd test_filter2"] a
  show ?thesis
    by (simp add: test_defs pose_zero_def)
qed

section \<open>Calls that complete a line\<close>

text \<open>
  C6. The pose that a completed line appends is not always the pose of the particle of
  largest weight. The two particles of the test filter are updated to the weights 1 and
  12 and both are copied into the new population; the copy constructor leaves the weights
  of the copies as they are found, here 5 and 0, and \<^verbatim>\<open>max_element\<close> reads those: the
  iterator points to the copy of the particle of weight 1, and its pose \<open>(0, 0)\<close> is
  appended, not the pose \<open>(11, 0)\<close> of the particle of weight 12. The call returns true,
  the trajectory grows by one pose and the scan line holds the completing sample alone.
\<close>

theorem receivedSensorData_best_particle_by_left_over_weight:
  "\<exists>s' h'.
      CParticleSLAM_receivedSensorData (test_externals (\<lambda>p. 1 + fst (m_pt p)))
        (test_entropy 1 (\<lambda>m. if m = 0 then Finite 5 else Finite 0)) (test_data 15 105)
        test_filter2 = Inr (True, s', h')
    \<and> map_sum id (\<lambda>(ps, W, h1). map (\<lambda>p. (m_pt (m_pose p), m_fWeight p)) ps)
        (update_particles (test_externals (\<lambda>p. 1 + fst (m_pt p)))
           (test_entropy 1 (\<lambda>m. if m = 0 then Finite 5 else Finite 0))
           (m_scanline (fst test_filter2)) 0 (m_vecparticle (fst test_filter2)) (Finite 0)
           (snd test_filter2)) =
        Inr [((0, 0), Finite 1), ((11, 0), Finite 12)]
    \<and> map (\<lambda>p. (m_pt (m_pose p), m_fWeight p)) (m_vecparticle s') =
        [((0, 0), Finite 5), ((11, 0), Finite 0)]
    \<and> m_itparticle s' = 0
    \<and> m_vecpose s' = m_vecpose (fst test_filter2) @ [\<lparr>m_pt = (0, 0), m_fYaw = 0\<rparr>]
    \<and> m_scanline s' = [test_scan 15 105]"
  by (simp add: model_defs test_defs loop_simps double_defs)

section \<open>Invariants of the filter\<close>

lemma default_particles_length:
  "default_particles X w i n h = (ps, h') \<Longrightarrow> length ps = n"
proof (induction n arbitrary: i h ps h')
  case 0
  then show ?case by simp
next
  case (Suc n)
  obtain p h1 where p: "SParticle_new X (w i) h = (p, h1)"
    by (cases "SParticle_new X (w i) h")
  obtain ps1 h2 where rec: "default_particles X w (Suc i) n h1 = (ps1, h2)"
    by (cases "default_particles X w (Suc i) n h1")
  from Suc.prems p rec have "ps = p # ps1" by simp
  with Suc.IH [OF rec] show ?case by simp
qed

lemma CParticleSLAM_new_Inr:
  assumes "CParticleSLAM_new X w cParticles = Inr (s, h)"
  shows "0 \<le> cParticles \<and> length (m_vecparticle s) = nat cParticles
       \<and> m_itparticle s = length (m_vecparticle s) \<and> m_scanline s = [] \<and> m_vecpose s = []"
proof -
  from assms have nonneg: "0 \<le> cParticles"
    by (auto simp: CParticleSLAM_new_def split: if_splits)
  obtain ps h0 where ps: "default_particles X w 0 (nat cParticles) [] = (ps, h0)"
    by (cases "default_particles X w 0 (nat cParticles) ([] :: 'a list)")
  with assms nonneg have "s = \<lparr>m_vecparticle = ps, m_itparticle = length ps,
                                 m_scanline = [], m_vecpose = []\<rparr>"
    by (simp add: CParticleSLAM_new_def)
  with default_particles_length [OF ps] nonneg show ?thesis by simp
qed

lemma false_return:
  assumes "CParticleSLAM_receivedSensorData X E data (s, h) = Inr (False, s', h')"
  shows "s' = s\<lparr>m_scanline := snd (SScanLine_add X data (m_scanline s))\<rparr> \<and> h' = h"
proof -
  have "fst (SScanLine_add X data (m_scanline s))"
  proof (rule ccontr)
    assume rej: "\<not> fst (SScanLine_add X data (m_scanline s))"
    from assms show False
      unfolding reject_branch [OF rej]
      by (auto simp: Let_def split: sum.splits if_splits)
  qed
  from accept_branch [OF this, of E h] assms show ?thesis by simp
qed

lemma receive_all_length:
  "receive_all X inputs (s, h) = Inr (flags, s', h') \<Longrightarrow>
     length (m_vecparticle s') = length (m_vecparticle s) \<and> length flags = length inputs"
proof (induction inputs arbitrary: s h flags)
  case Nil
  then show ?case by simp
next
  case (Cons a inputs)
  obtain E data where a: "a = (E, data)" by (cases a)
  from Cons.prems a obtain b s1 h1 where
    step: "CParticleSLAM_receivedSensorData X E data (s, h) = Inr (b, s1, h1)"
    by (cases "CParticleSLAM_receivedSensorData X E data (s, h)") auto
  with Cons.prems a obtain bs where
    rest: "receive_all X inputs (s1, h1) = Inr (bs, s', h')" and flags: "flags = b # bs"
    by (cases "receive_all X inputs (s1, h1)") auto
  from Cons.IH [OF rest] call_keeps_size [OF step] flags show ?case by simp
qed

lemma receive_all_no_resampling:
  "receive_all X inputs (s, h) = Inr (flags, s', h') \<Longrightarrow> True \<notin> set flags \<Longrightarrow>
     m_vecparticle s' = m_vecparticle s \<and> m_itparticle s' = m_itparticle s
     \<and> m_vecpose s' = m_vecpose s \<and> h' = h"
proof (induction inputs arbitrary: s h flags)
  case Nil
  then show ?case by simp
next
  case (Cons a inputs)
  obtain E data where a: "a = (E, data)" by (cases a)
  from Cons.prems(1) a obtain b s1 h1 where
    step: "CParticleSLAM_receivedSensorData X E data (s, h) = Inr (b, s1, h1)"
    by (cases "CParticleSLAM_receivedSensorData X E data (s, h)") auto
  with Cons.prems(1) a obtain bs where
    rest: "receive_all X inputs (s1, h1) = Inr (bs, s', h')" and flags: "flags = b # bs"
    by (cases "receive_all X inputs (s1, h1)") auto
  from flags Cons.prems(2) have "\<not> b" "True \<notin> set bs" by auto
  from false_return [OF step [unfolded \<open>\<not> b\<close> [THEN eq_False [THEN iffD2]]]]
  have "m_vecparticle s1 = m_vecparticle s" "m_itparticle s1 = m_itparticle s"
    "m_vecpose s1 = m_vecpose s" "h1 = h"
    by simp_all
  with Cons.IH [OF rest \<open>True \<notin> set bs\<close>] show ?case by simp
qed

text \<open>A filter of two particles, fed a line of three samples and then a reversal.\<close>

lemma test_run2:
  "\<exists>s0 h0 s h. CParticleSLAM_new (test_externals (\<lambda>p. 1)) (\<lambda>i. Finite 0) 2 = Inr (s0, h0)
     \<and> receive_all (test_externals (\<lambda>p. 1))
          [(test_entropy (1/2) (\<lambda>m. Finite 0), test_data 10 100),
           (test_entropy (1/2) (\<lambda>m. Finite 0), test_data 20 110),
           (test_entropy (1/2) (\<lambda>m. Finite 0), test_data 30 120),
           (test_entropy (1/2) (\<lambda>m. Finite 0), test_data 25 115)] (s0, h0)
         = Inr ([False, False, False, True], s, h)"
  by (simp add: model_defs test_defs loop_simps double_defs)

lemma test_run1:
  "\<exists>s0 h0 s h. CParticleSLAM_new (test_externals (\<lambda>p. 1)) (\<lambda>i. Finite 0) 2 = Inr (s0, h0)
     \<and> receive_all (test_externals (\<lambda>p. 1))
          [(test_entropy (1/2) (\<lambda>m. Finite 0), test_data 10 100),
           (test_entropy (1/2) (\<lambda>m. Finite 0), test_data 20 110),
           (test_entropy (1/2) (\<lambda>m. Finite 0), test_data 30 120)] (s0, h0)
         = Inr ([False, False, False], s, h)"
  by (simp add: model_defs test_defs loop_simps)

text \<open>
  C5. A filter constructed with \<open>cParticles\<close> particles has that many particles after
  every call of \<^verbatim>\<open>receivedSensorData\<close> that returns, whatever the call returns.
\<close>

theorem population_size_invariant:
  assumes "CParticleSLAM_new X w cParticles = Inr (s0, h0)"
      and "receive_all X inputs (s0, h0) = Inr (flags, s, h)"
  shows "length (m_vecparticle s0) = nat cParticles
       \<and> length (m_vecparticle s) = nat cParticles"
  using CParticleSLAM_new_Inr [OF assms(1)] receive_all_length [OF assms(2)]
  by simp

theorem population_size_invariant_witness:
  "\<exists>s0 h0 s h. CParticleSLAM_new (test_externals (\<lambda>p. 1)) (\<lambda>i. Finite 0) 2 = Inr (s0, h0)
     \<and> receive_all (test_externals (\<lambda>p. 1))
          [(test_entropy (1/2) (\<lambda>m. Finite 0), test_data 10 100),
           (test_entropy (1/2) (\<lambda>m. Finite 0), test_data 20 110),
           (test_entropy (1/2) (\<lambda>m. Finite 0), test_data 30 120),
           (test_entropy (1/2) (\<lambda>m. Finite 0), test_data 25 115)] (s0, h0)
         = Inr ([False, False, False, True], s, h)
     \<and> length (m_vecparticle s0) = 2 \<and> length (m_vecparticle s) = 2"
proof -
  from test_run2 obtain s0 h0 s h where
    new: "CParticleSLAM_new (test_externals (\<lambda>p. 1)) (\<lambda>i. Finite 0) 2 = Inr (s0, h0)"
    and run: "receive_all (test_externals (\<lambda>p. 1))
          [(test_entropy (1/2) (\<lambda>m. Finite 0), test_data 10 100),
           (test_entropy (1/2) (\<lambda>m. Finite 0), test_data 20 110),
           (test_entropy (1/2) (\<lambda>m. Finite 0), test_data 30 120),
           (test_entropy (1/2) (\<lambda>m. Finite 0), test_data 25 115)] (s0, h0)
         = Inr ([False, False, False, True], s, h)"
    by blast
  from population_size_invariant [OF new run] new run show ?thesis
    by simp
qed

text \<open>
  C8. As long as no call of \<^verbatim>\<open>receivedSensorData\<close> has returned true, the iterator is
  still \<^verbatim>\<open>end()\<close> and \<^verbatim>\<open>getMap\<close> fails its assertion; it returns no map.
\<close>

theorem getMap_before_first_resampling:
  assumes "CParticleSLAM_new X w cParticles = Inr (s0, h0)"
      and "receive_all X inputs (s0, h0) = Inr (flags, s, h)"
      and "True \<notin> set flags"
  shows "CParticleSLAM_getMap X (s, h) = Inl AssertionFailed"
  using CParticleSLAM_new_Inr [OF assms(1)] receive_all_no_resampling [OF assms(2,3)]
  by (simp add: CParticleSLAM_getMap_def)

theorem getMap_before_first_resampling_witness:
  "\<exists>s0 h0 s h. CParticleSLAM_new (test_externals (\<lambda>p. 1)) (\<lambda>i. Finite 0) 2 = Inr (s0, h0)
     \<and> receive_all (test_externals (\<lambda>p. 1))
          [(test_entropy (1/2) (\<lambda>m. Finite 0), test_data 10 100),
           (test_entropy (1/2) (\<lambda>m. Finite 0), test_data 20 110),
           (test_entropy (1/2) (\<lambda>m. Finite 0), test_data 30 120)] (s0, h0)
         = Inr ([False, False, False], s, h)
     \<and> True \<notin> set [False, False, False]
     \<and> CParticleSLAM_getMap (test_externals (\<lambda>p. 1)) (s, h) = Inl AssertionFailed"
proof -
  from test_run1 obtain s0 h0 s h where
    new: "CParticleSLAM_new (test_externals (\<lambda>p. 1)) (\<lambda>i. Finite 0) 2 = Inr (s0, h0)"
    and run: "receive_all (test_externals (\<lambda>p. 1))
          [(test_entropy (1/2) (\<lambda>m. Finite 0), test_data 10 100),
           (test_entropy (1/2) (\<lambda>m. Finite 0), test_data 20 110),
           (test_entropy (1/2) (\<lambda>m. Finite 0), test_data 30 120)] (s0, h0)
         = Inr ([False, False, False], s, h)"
    by blast
  have none: "True \<notin> set [False, False, False]" by simp
  from getMap_before_first_resampling [OF new run none] new run none show ?thesis
    by blast
qed

section \<open>Bounds of the resampling\<close>

text \<open>
  C10. In exact arithmetic, with at least one particle, weights that are finite and not
  negative and an offset drawn from \<open>[0, W/N)\<close> (or the offset 0 when the total weight \<open>W\<close>
  is 0), the resampling divides by a size that is not zero and returns: no read is past
  the last particle, and every reported index is below the size of the population. When
  the total weight is 0, every slot holds index 0.
\<close>

theorem resample_in_bounds:
  assumes "ps \<noteq> []"
      and "map m_fWeight ps = map Finite ws"
      and "\<forall>w \<in> set ws. 0 \<le> w"
      and "W = sum_list ws"
      and "uniform_real E = Finite r"
      and "0 \<le> r"
      and "r < W / real (length ps) \<or> (W = 0 \<and> r = 0)"
  shows "W / real (length ps) * real (length ps) = W
       \<and> double_divide Finite (Finite W) (Finite (real (length ps)))
           = Finite (W / real (length ps))
       \<and> (\<exists>new trace h'. resample Finite E (Finite W) ps h = Inr (new, trace, h')
            \<and> length trace = length ps
            \<and> (\<forall>i \<in> set trace. i < length ps)
            \<and> (W = 0 \<longrightarrow> trace = replicate (length ps) 0))"
proof -
  from assms(1) have div: "W / real (length ps) * real (length ps) = W" by simp
  from assms(7) have le: "r \<le> W / real (length ps)" by auto
  from resample_total_exact [OF assms(1,2,4,5,6) le] obtain new trace h' where
    rs: "resample Finite E (Finite W) ps h = Inr (new, trace, h')"
    by blast
  from resample_Inr [OF rs] have len: "length trace = length ps"
    and sel: "selected Finite ps (uniform_real E)
                (double_divide Finite (Finite W) (Finite (real (length ps)))) 0 0 trace"
    by blast+
  have zero: "trace = replicate (length ps) 0" if "W = 0"
  proof -
    from that assms(3,4) have "\<forall>w \<in> set ws. w = 0"
      by (intro weights_all_zero) simp_all
    then have "map Finite ws = map (\<lambda>w. Finite 0) ws" by simp
    with assms(2) have z: "\<forall>p \<in> set ps. m_fWeight p = Finite 0"
      by (metis (no_types, lifting) ex_map_conv in_set_conv_nth length_map nth_map nth_mem)
    from that assms(6,7) have r0: "uniform_real E = Finite 0" using assms(5) by auto
    have ex: "\<forall>k \<le> length ps. Finite (real k) = Finite (real k)" by simp
    from assms(1) that
    have st: "double_divide Finite (Finite W) (Finite (real (length ps))) = Finite 0"
      by simp
    from resample_zero [OF assms(1) z ex r0 st, of h] rs show ?thesis by simp
  qed
  from div rs len selected_in_bounds [OF sel] zero step_exact [OF assms(1), of W]
  show ?thesis by blast
qed

theorem resample_in_bounds_witness:
  "map m_fWeight [test_particle 0 0 1, test_particle 1 10 3] = map Finite [1, 3]
   \<and> uniform_real (test_entropy 1 (\<lambda>m. Finite 0)) = Finite 1
   \<and> (1::real) < 4 / real (length [test_particle 0 0 1, test_particle 1 10 3])
   \<and> (\<exists>new h'. resample Finite (test_entropy 1 (\<lambda>m. Finite 0)) (Finite 4)
                     [test_particle 0 0 1, test_particle 1 10 3]
                     (take 6 test_store) = Inr (new, [0, 1], h'))
   \<and> map m_fWeight [test_particle 0 0 0, test_particle 1 10 0] = map Finite [0, 0]
   \<and> uniform_real (test_entropy 0 (\<lambda>m. Finite 0)) = Finite 0
   \<and> (\<exists>new h'. resample Finite (test_entropy 0 (\<lambda>m. Finite 0)) (Finite 0)
                     [test_particle 0 0 0, test_particle 1 10 0]
                     (take 6 test_store) = Inr (new, [0, 0], h'))"
proof -
  let ?ps = "[test_particle 0 0 1, test_particle 1 10 3]"
  let ?zs = "[test_particle 0 0 0, test_particle 1 10 0]"
  have a: "?ps \<noteq> []" "map m_fWeight ?ps = map Finite [1, 3]" "\<forall>w \<in> set [1, 3::real]. 0 \<le> w"
    "4 = sum_list [1, 3::real]"
    "uniform_real (test_entropy 1 (\<lambda>m. Finite 0)) = Finite 1" "0 \<le> (1::real)"
    "1 < 4 / real (length ?ps) \<or> ((4::real) = 0 \<and> (1::real) = 0)"
    by (simp_all add: test_defs)
  have b: "?zs \<noteq> []" "map m_fWeight ?zs = map Finite [0, 0]" "\<forall>w \<in> set [0, 0::real]. 0 \<le> w"
    "0 = sum_list [0, 0::real]"
    "uniform_real (test_entropy 0 (\<lambda>m. Finite 0)) = Finite 0" "0 \<le> (0::real)"
    "0 < 0 / real (length ?zs) \<or> ((0::real) = 0 \<and> (0::real) = 0)"
    by (simp_all add: test_defs)
  have c: "\<exists>new h'. resample Finite (test_entropy 1 (\<lambda>m. Finite 0)) (Finite 4) ?ps
                      (take 6 test_store) = Inr (new, [0, 1], h')"
    by (simp add: model_defs test_defs loop_simps)
  from resample_in_bounds [OF a, of "take 6 test_store"]
       resample_in_bounds [OF b, of "take 6 test_store"] a(2,5,7) b(2,5) c
  show ?thesis
    by (auto simp: numeral_2_eq_2)
qed

section \<open>Systematic resampling\<close>

text \<open>
  What a call that returns true has done, in whatever arithmetic: the population was
  updated to \<open>ps\<close> with the total weight \<open>W\<close>, there are \<open>N\<close> source indices, they never
  decrease, for every \<open>m\<close> the index is reached from the previous one (from 0 for the
  first) by moving forward exactly while the running sum is below the target of the slot,
  and the \<open>m\<close>-th new particle is the copy the copy constructor makes of the particle at
  that index.
\<close>

lemma receivedSensorData_resampling:
  assumes "CParticleSLAM_receivedSensorData X E data (s, h) = Inr (True, s', h')"
  shows "\<exists>ps W h1 trace.
            update_particles X E (m_scanline s) 0 (m_vecparticle s) (Finite 0) h = Inr (ps, W, h1)
          \<and> W = fold (\<lambda>p t. double_add (rounding X) t (m_fWeight p)) ps (Finite 0)
          \<and> length (m_vecparticle s') = length ps
          \<and> length trace = length ps
          \<and> sorted trace
          \<and> (\<forall>m < length ps.
                (if m = 0 then 0 else trace ! (m - 1)) \<le> trace ! m
              \<and> trace ! m < length ps
              \<and> \<not> double_less (running (rounding X) ps (trace ! m))
                     (target (rounding X) (uniform_real E)
                        (double_divide (rounding X) W (rounding X (real (length ps)))) m)
              \<and> (\<forall>j. (if m = 0 then 0 else trace ! (m - 1)) \<le> j \<and> j < trace ! m
                     \<longrightarrow> double_less (running (rounding X) ps j)
                           (target (rounding X) (uniform_real E)
                              (double_divide (rounding X) W (rounding X (real (length ps)))) m))
              \<and> m_vecparticle s' ! m =
                   fst (SParticle_copy (uninitialised_fWeight E m) (ps ! (trace ! m))
                          (take (length h1 + 3 * m) h')))"
proof -
  from true_return [OF assms] obtain ps W h1 trace where
    up: "update_particles X E (m_scanline s) 0 (m_vecparticle s) (Finite 0) h = Inr (ps, W, h1)"
    and rs: "resample (rounding X) E W ps h1 = Inr (m_vecparticle s', trace, h')"
    by blast
  from update_particles_Inr [OF up]
  have W: "W = fold (\<lambda>p t. double_add (rounding X) t (m_fWeight p)) ps (Finite 0)"
    by simp
  let ?s = "double_divide (rounding X) W (rounding X (real (length ps)))"
  from resample_Inr [OF rs] have len: "length trace = length ps"
      "length (m_vecparticle s') = length ps"
    and sel: "selected (rounding X) ps (uniform_real E) ?s 0 0 trace"
    and cp: "\<forall>k < length ps. m_vecparticle s' ! k =
            fst (SParticle_copy (uninitialised_fWeight E k) (ps ! (trace ! k))
                   (take (length h1 + 3 * k) h'))"
    by blast+
  from selected_sorted [OF sel] have sorted: "sorted trace" by simp
  have each: "(if m = 0 then 0 else trace ! (m - 1)) \<le> trace ! m
              \<and> trace ! m < length ps
              \<and> \<not> double_less (running (rounding X) ps (trace ! m))
                     (target (rounding X) (uniform_real E) ?s m)
              \<and> (\<forall>j. (if m = 0 then 0 else trace ! (m - 1)) \<le> j \<and> j < trace ! m
                     \<longrightarrow> double_less (running (rounding X) ps j)
                           (target (rounding X) (uniform_real E) ?s m))
              \<and> m_vecparticle s' ! m =
                   fst (SParticle_copy (uninitialised_fWeight E m) (ps ! (trace ! m))
                          (take (length h1 + 3 * m) h'))"
    if "m < length ps" for m
    using selected_nth [OF sel, of m] that len cp by simp
  from up W len sorted each show ?thesis by blast
qed

text \<open>
  C1. The resampling loop can run past the last particle. Seven particles are updated to
  the weights 23, 1, 1, 1, 1, 1, 1; their sum is the \<^verbatim>\<open>double\<close> 29 and the step size is the
  \<^verbatim>\<open>double\<close> nearest to 29/7. The offset is a \<^verbatim>\<open>double\<close> in the range of the
  distribution, just below the step size. The target of the last slot is then rounded to
  the \<^verbatim>\<open>double\<close> above 29, the running sum 29 of all seven weights is below it, and the
  loop reads \<^verbatim>\<open>m_vecparticle[7]\<close>: no particle is selected for the slot, and the call has no
  defined result.
\<close>

theorem receivedSensorData_reads_past_last_particle:
  "map_sum id (\<lambda>(ps, W, h1). (map m_fWeight ps, W, running double_of_real ps 6))
      (update_particles (test_externals test_weight7) (test_entropy test_offset7 (\<lambda>m. Finite 0))
         (m_scanline (fst test_filter7)) 0 (m_vecparticle (fst test_filter7)) (Finite 0)
         (snd test_filter7)) =
     Inr ([Finite 23, Finite 1, Finite 1, Finite 1, Finite 1, Finite 1, Finite 1], Finite 29,
          Finite 29)
   \<and> double_divide double_of_real (Finite 29) (double_of_real (real 7))
       = Finite (4664442471205157 / 1125899906842624)
   \<and> double_of_real test_offset7 = Finite test_offset7
   \<and> 0 \<le> test_offset7 \<and> test_offset7 < 4664442471205157 / 1125899906842624
   \<and> target double_of_real (Finite test_offset7) (Finite (4664442471205157 / 1125899906842624)) 6
       = Finite (8162774324609025 / 281474976710656)
   \<and> (29::real) < 8162774324609025 / 281474976710656
   \<and> CParticleSLAM_receivedSensorData (test_externals test_weight7)
        (test_entropy test_offset7 (\<lambda>m. Finite 0)) (test_data 15 105) test_filter7
       = Inl IndexOutOfRange"
  by (simp add: test_filter7_def test_store7_def test_weight7_def test_offset7_def target_def
        running_numeral running_1 model_defs test_defs loop_simps double_defs)

text \<open>
  C4, as amended. With four particles of weight 1 each (total weight 4, step size 1) and
  an offset that is above \<open>2 ^ -52\<close> and below 1, the resampling on the machine selects
  the indices 0, 1, 2, 3: every particle once.
\<close>

theorem resample_equal_weights:
  assumes "map m_fWeight ps = [Finite 1, Finite 1, Finite 1, Finite 1]"
      and "uniform_real E = Finite r" and "1 / 2 ^ 52 < r" and "r < 1"
  shows "fold (\<lambda>p t. double_add double_of_real t (m_fWeight p)) ps (Finite 0) = Finite 4
       \<and> double_divide double_of_real (Finite 4) (double_of_real (real (length ps))) = Finite 1
       \<and> sampled_indices double_of_real E (Finite 4) ps h = Inr [0, 1, 2, 3]"
proof -
  from assms(1) obtain p0 p1 p2 p3 where ps: "ps = [p0, p1, p2, p3]"
    and w: "m_fWeight p0 = Finite 1" "m_fWeight p1 = Finite 1" "m_fWeight p2 = Finite 1"
      "m_fWeight p3 = Finite 1"
    by (auto simp: map_eq_Cons_conv)
  define a0 where "a0 = round_double r"
  define a1 where "a1 = round_double (r + 1)"
  define a2 where "a2 = round_double (r + 2)"
  define a3 where "a3 = round_double (r + 3)"
  from assms(3) have "0 \<le> r" by (simp add: order_less_imp_le [OF order_less_trans [of 0 "1 / 2 ^ 52" r]])
  from round_double_nonneg [OF this] round_double_below_1 [OF assms(3,4)]
  have u0: "double_of_real r = Finite a0" "\<not> 1 < a0"
    by (simp_all add: a0_def double_of_real_small)
  from round_double_above_1 [OF assms(3,4)]
  have u1: "double_of_real (r + 1) = Finite a1" "1 < a1" "\<not> 2 < a1"
    by (simp_all add: a1_def double_of_real_small)
  from round_double_above_2 [OF assms(3,4)]
  have u2: "double_of_real (r + 2) = Finite a2" "2 < a2" "\<not> 3 < a2"
    by (simp_all add: a2_def double_of_real_small)
  from round_double_above_3 [OF assms(3,4)]
  have u3: "double_of_real (r + 3) = Finite a3" "3 < a3" "\<not> 4 < a3"
    by (simp_all add: a3_def double_of_real_small)
  have tot: "fold (\<lambda>p t. double_add double_of_real t (m_fWeight p)) ps (Finite 0) = Finite 4"
    unfolding ps by (simp add: w double_of_real_numerals)
  have step: "double_divide double_of_real (Finite 4) (double_of_real (real (length ps)))
                = Finite 1"
    unfolding ps by (simp add: double_of_real_numerals)
  have "sampled_indices double_of_real E (Finite 4) ps h = Inr [0, 1, 2, 3]"
    unfolding ps
    by (simp add: sampled_indices_def resample_def Let_def loop_simps assms(2) w
          double_of_real_numerals u0 u1 u2 u3 split: prod.splits)
  with tot step show ?thesis by simp
qed

theorem resample_equal_weights_witness:
  "map m_fWeight [test_particle 0 0 1, test_particle 1 10 1,
                  test_particle 2 20 1, test_particle 3 30 1]
     = [Finite 1, Finite 1, Finite 1, Finite 1]
   \<and> uniform_real (test_entropy (1 / 2) (\<lambda>m. Finite 0)) = Finite (1 / 2)
   \<and> (1::real) / 2 ^ 52 < 1 / 2 \<and> (1::real) / 2 < 1
   \<and> fold (\<lambda>p t. double_add double_of_real t (m_fWeight p))
        [test_particle 0 0 1, test_particle 1 10 1, test_particle 2 20 1, test_particle 3 30 1]
        (Finite 0) = Finite 4
   \<and> sampled_indices double_of_real (test_entropy (1 / 2) (\<lambda>m. Finite 0)) (Finite 4)
        [test_particle 0 0 1, test_particle 1 10 1, test_particle 2 20 1, test_particle 3 30 1]
        test_store = Inr [0, 1, 2, 3]"
proof -
  have a: "map m_fWeight [test_particle 0 0 1, test_particle 1 10 1,
                  test_particle 2 20 1, test_particle 3 30 1]
             = [Finite 1, Finite 1, Finite 1, Finite 1]"
    "uniform_real (test_entropy (1 / 2) (\<lambda>m. Finite 0)) = Finite (1 / 2)"
    "(1::real) / 2 ^ 52 < 1 / 2" "(1::real) / 2 < 1"
    by (simp_all add: test_defs)
  from resample_equal_weights [OF a, of test_store] a show ?thesis by simp
qed

text \<open>
  C4, as stated, includes the offsets from 0 to \<open>2 ^ -52\<close>, which the distribution can
  return. At the offset 0 the second target is 1, the running sum 1 of the first particle
  is not below it, and the first particle is selected twice: the indices are 0, 0, 1, 2
  and the last particle is lost. At the offset \<open>2 ^ -54\<close> the second target \<open>1 + 2 ^ -54\<close>
  is rounded to 1, with the same result; at \<open>2 ^ -52\<close> the third target is rounded to 2
  and the indices are 0, 1, 1, 2.
\<close>

theorem resample_equal_weights_small_offsets:
  "map m_fWeight [test_particle 0 0 1, test_particle 1 10 1,
                  test_particle 2 20 1, test_particle 3 30 1]
     = [Finite 1, Finite 1, Finite 1, Finite 1]
   \<and> double_divide double_of_real (Finite 4) (double_of_real (real 4)) = Finite 1
   \<and> sampled_indices double_of_real (test_entropy 0 (\<lambda>m. Finite 0)) (Finite 4)
        [test_particle 0 0 1, test_particle 1 10 1, test_particle 2 20 1, test_particle 3 30 1]
        test_store = Inr [0, 0, 1, 2]
   \<and> double_of_real (1 / 2 ^ 54) = Finite (1 / 2 ^ 54)
   \<and> sampled_indices double_of_real (test_entropy (1 / 2 ^ 54) (\<lambda>m. Finite 0)) (Finite 4)
        [test_particle 0 0 1, test_particle 1 10 1, test_particle 2 20 1, test_particle 3 30 1]
        test_store = Inr [0, 0, 1, 2]
   \<and> double_of_real (1 / 2 ^ 52) = Finite (1 / 2 ^ 52)
   \<and> sampled_indices double_of_real (test_entropy (1 / 2 ^ 52) (\<lambda>m. Finite 0)) (Finite 4)
        [test_particle 0 0 1, test_particle 1 10 1, test_particle 2 20 1, test_particle 3 30 1]
        test_store = Inr [0, 1, 1, 2]"
  by (simp add: sampled_indices_def model_defs test_defs loop_simps double_defs)

section \<open>A population of weight zero\<close>




section \<open>Rendering the map\<close>

text \<open>
  What \<^verbatim>\<open>getMap\<close> leaves as it is: the store keeps its size, and every buffer other than
  the greyscale map of the best particle keeps its content.
\<close>

lemma draw_trajectory_frame:
  "fold (\<lambda>pose (h, ptnPrev).
           (let ptnGrid = toGrid (m_pt pose)
            in (h[m := draw (h ! m) ptnPrev ptnGrid], ptnGrid))) poses (h, ptn) = (h', ptn') \<Longrightarrow>
     length h' = length h \<and> (\<forall>a. a \<noteq> m \<longrightarrow> h' ! a = h ! a)"
proof (induction poses arbitrary: h ptn)
  case Nil
  then show ?case by simp
next
  case (Cons pose poses)
  from Cons.prems have
    "fold (\<lambda>pose (h, ptnPrev).
           (let ptnGrid = toGrid (m_pt pose)
            in (h[m := draw (h ! m) ptnPrev ptnGrid], ptnGrid))) poses
       (h[m := draw (h ! m) ptn (toGrid (m_pt pose))], toGrid (m_pt pose)) = (h', ptn')"
    by (simp add: Let_def)
  from Cons.IH [OF this] show ?case by simp
qed

lemma getMap_frame:
  assumes "CParticleSLAM_getMap X (s, h) = Inr (m, h')"
  shows "m_itparticle s \<noteq> length (m_vecparticle s)
       \<and> m = GreyscaleMap (m_occgrid (m_vecparticle s ! m_itparticle s))
       \<and> length h' = length h \<and> (\<forall>a. a \<noteq> m \<longrightarrow> h' ! a = h ! a)"
proof -
  from assms have it: "m_itparticle s \<noteq> length (m_vecparticle s)"
    by (auto simp: CParticleSLAM_getMap_def split: if_splits)
  let ?g = "m_occgrid (m_vecparticle s ! m_itparticle s)"
  let ?toGrid = "toGridCoordinates X (m_szn ?g) (m_nScale ?g)"
  obtain h1 ptn1 where f:
    "fold (\<lambda>pose (h, ptnPrev).
           (let ptnGrid = ?toGrid (m_pt pose)
            in (h[GreyscaleMap ?g := line X (h ! GreyscaleMap ?g) ptnPrev ptnGrid], ptnGrid)))
       (m_vecpose s) (h, ?toGrid (0, 0)) = (h1, ptn1)"
    by (cases "fold (\<lambda>pose (h, ptnPrev).
           (let ptnGrid = ?toGrid (m_pt pose)
            in (h[GreyscaleMap ?g := line X (h ! GreyscaleMap ?g) ptnPrev ptnGrid], ptnGrid)))
       (m_vecpose s) (h, ?toGrid (0, 0))")
  with assms it have "m = GreyscaleMap ?g" "h' = h1"
    by (simp_all add: CParticleSLAM_getMap_def Let_def)
  with draw_trajectory_frame [OF f] it show ?thesis by simp
qed

text \<open>
  C7. \<^verbatim>\<open>getMap\<close> is not a pure read. A filter of one particle is constructed and fed a
  line of two samples and a reversal, so that one cycle has completed and the trajectory
  holds one pose. The greyscale map of the best particle is grey (128) at the centre cell
  before \<^verbatim>\<open>getMap\<close> and black (0) after it: the returned matrix shares the buffer of
  the particle's map, and the trajectory is drawn into it.
\<close>

theorem getMap_draws_into_particle_map:
  "\<exists>s0 h0 s h h'.
      CParticleSLAM_new (test_externals (\<lambda>p. 1)) (\<lambda>i. Finite 0) 1 = Inr (s0, h0)
    \<and> receive_all (test_externals (\<lambda>p. 1))
         [(test_entropy (1 / 2) (\<lambda>m. Finite 0), test_data 10 100),
          (test_entropy (1 / 2) (\<lambda>m. Finite 0), test_data 20 110),
          (test_entropy (1 / 2) (\<lambda>m. Finite 0), test_data 15 105)] (s0, h0)
        = Inr ([False, False, True], s, h)
    \<and> CParticleSLAM_getMap (test_externals (\<lambda>p. 1)) (s, h)
        = Inr (GreyscaleMap (m_occgrid (m_vecparticle s ! m_itparticle s)), h')
    \<and> m_vecpose s = [\<lparr>m_pt = (0, 0), m_fYaw = 0\<rparr>]
    \<and> (h ! GreyscaleMap (m_occgrid (m_vecparticle s ! m_itparticle s))) (200, 200) = 128
    \<and> (h' ! GreyscaleMap (m_occgrid (m_vecparticle s ! m_itparticle s))) (200, 200) = 0"
  by (simp add: model_defs test_defs loop_simps double_defs)

end
